theory Spec2Isabelle
  imports Main

begin

section \<open>Data model of jstok.h\<close>

text \<open>
  The embedding follows the default build of the single header: no parent links,
  \<open>JSTOK_MAX_DEPTH\<close> at its default of 64. The compile-time switch \<open>JSTOK_STRICT\<close> is a
  boolean parameter \<open>strict\<close> of every function whose body it changes. C \<open>int\<close>s are
  modelled as \<open>int\<close>: positions and token counts never exceed the buffer length, so no
  parser arithmetic can overflow. A pointer that may be \<open>NULL\<close> is an \<open>option\<close>.
\<close>

datatype jstoktype_t =
  JSTOK_UNDEFINED | JSTOK_OBJECT | JSTOK_ARRAY | JSTOK_STRING | JSTOK_PRIMITIVE

abbreviation JSTOK_ERROR_NOMEM :: int where "JSTOK_ERROR_NOMEM \<equiv> - 1"

abbreviation JSTOK_ERROR_INVAL :: int where "JSTOK_ERROR_INVAL \<equiv> - 2"

abbreviation JSTOK_ERROR_PART :: int where "JSTOK_ERROR_PART \<equiv> - 3"

abbreviation JSTOK_ERROR_DEPTH :: int where "JSTOK_ERROR_DEPTH \<equiv> - 4"

definition JSTOK_MAX_DEPTH :: int where
  "JSTOK_MAX_DEPTH = 64"

record jstoktok =
  tk_type :: jstoktype_t
  tk_start :: int
  tk_end :: int
  tk_size :: int

datatype jstok_state_t =
  JSTOK_ST_OBJ_KEY_OR_END | JSTOK_ST_OBJ_KEY | JSTOK_ST_OBJ_COLON | JSTOK_ST_OBJ_VALUE
| JSTOK_ST_OBJ_COMMA_OR_END | JSTOK_ST_ARR_VALUE_OR_END | JSTOK_ST_ARR_VALUE
| JSTOK_ST_ARR_COMMA_OR_END

record jstok_frame =
  fr_type :: jstoktype_t
  fr_st :: jstok_state_t
  fr_tok :: int

text \<open>
  The frame array \<open>stack[JSTOK_MAX_DEPTH]\<close> is a function from indices to frames; the code
  only touches indices below \<open>JSTOK_MAX_DEPTH\<close> (guarded by \<open>jstok_push\<close> and \<open>jstok_top\<close>).
\<close>

record jstok_parser =
  p_pos :: int
  p_toknext :: int
  p_depth :: int
  p_root_done :: int
  p_error_pos :: int
  p_error_code :: int
  p_stack :: "nat \<Rightarrow> jstok_frame"

section \<open>Character classes\<close>

definition jstok_is_space :: "char \<Rightarrow> bool" where
  "jstok_is_space c \<longleftrightarrow> c = CHR '' '' \<or> c = CHR 0x09 \<or> c = CHR 0x0A \<or> c = CHR 0x0D"

definition jstok_is_digit :: "char \<Rightarrow> bool" where
  "jstok_is_digit c \<longleftrightarrow>
     (of_char (CHR ''0'') :: nat) \<le> of_char c \<and> (of_char c :: nat) \<le> of_char (CHR ''9'')"

definition jstok_is_hex :: "char \<Rightarrow> bool" where
  "jstok_is_hex c \<longleftrightarrow> jstok_is_digit c
     \<or> ((of_char (CHR ''a'') :: nat) \<le> of_char c \<and> (of_char c :: nat) \<le> of_char (CHR ''f''))
     \<or> ((of_char (CHR ''A'') :: nat) \<le> of_char c \<and> (of_char c :: nat) \<le> of_char (CHR ''F''))"

definition jstok_is_delim :: "char \<Rightarrow> bool" where
  "jstok_is_delim c \<longleftrightarrow> c = CHR '','' \<or> c = CHR '']'' \<or> c = CHR ''}'' \<or> jstok_is_space c"

section \<open>Parser state primitives\<close>

definition jstok_set_error :: "jstok_parser \<Rightarrow> int \<Rightarrow> int \<Rightarrow> jstok_parser" where
  "jstok_set_error p code pos = p\<lparr>p_error_code := code, p_error_pos := pos\<rparr>"

definition jstok_init :: "jstok_parser \<Rightarrow> jstok_parser" where
  "jstok_init p = p\<lparr>p_pos := 0, p_toknext := 0, p_depth := 0, p_root_done := 0,
                    p_error_pos := - 1, p_error_code := 0\<rparr>"

definition jstok_push ::
  "jstok_parser \<Rightarrow> jstoktype_t \<Rightarrow> jstok_state_t \<Rightarrow> int \<Rightarrow> int \<times> jstok_parser" where
  "jstok_push p ty st tok =
     (if p_depth p \<ge> JSTOK_MAX_DEPTH
      then (JSTOK_ERROR_DEPTH, jstok_set_error p JSTOK_ERROR_DEPTH (p_pos p))
      else (0, p\<lparr>p_stack := (p_stack p)(nat (p_depth p) :=
                       \<lparr>fr_type = ty, fr_st = st, fr_tok = tok\<rparr>),
                  p_depth := p_depth p + 1\<rparr>))"

definition jstok_pop :: "jstok_parser \<Rightarrow> jstok_parser" where
  "jstok_pop p = (if p_depth p > 0 then p\<lparr>p_depth := p_depth p - 1\<rparr> else p)"

text \<open>\<open>jstok_top\<close> returns a pointer into the stack: here the index of the top frame.\<close>

definition jstok_top :: "jstok_parser \<Rightarrow> nat option" where
  "jstok_top p = (if p_depth p \<le> 0 then None else Some (nat (p_depth p - 1)))"

text \<open>The assignment \<open>fr->st = st\<close> through such a pointer.\<close>

definition frame_set_st :: "jstok_parser \<Rightarrow> nat \<Rightarrow> jstok_state_t \<Rightarrow> jstok_parser" where
  "frame_set_st p fr st = p\<lparr>p_stack := (p_stack p)(fr := (p_stack p fr)\<lparr>fr_st := st\<rparr>)\<rparr>"

text \<open>
  The token array is a list (\<open>None\<close> for \<open>tokens == NULL\<close>, the count-only mode); the
  caller guarantees it holds at least \<open>max_tokens\<close> entries.
\<close>

definition jstok_new_token ::
  "jstok_parser \<Rightarrow> jstoktok list option \<Rightarrow> int \<Rightarrow> jstoktype_t \<Rightarrow> int \<Rightarrow> int
     \<Rightarrow> int \<times> jstok_parser \<times> jstoktok list option" where
  "jstok_new_token p toks max_tokens ty start end' =
     (case toks of
        Some ts \<Rightarrow>
          if p_toknext p \<ge> max_tokens
          then (JSTOK_ERROR_NOMEM, jstok_set_error p JSTOK_ERROR_NOMEM (p_pos p), toks)
          else (p_toknext p, p\<lparr>p_toknext := p_toknext p + 1\<rparr>,
                Some (ts[nat (p_toknext p) :=
                  \<lparr>tk_type = ty, tk_start = start, tk_end = end', tk_size = 0\<rparr>]))
      | None \<Rightarrow> (p_toknext p, p\<lparr>p_toknext := p_toknext p + 1\<rparr>, None))"

definition jstok_inc_container_size ::
  "jstok_parser \<Rightarrow> jstoktok list option \<Rightarrow> jstoktok list option" where
  "jstok_inc_container_size p toks =
     (case jstok_top p of
        None \<Rightarrow> toks
      | Some fr \<Rightarrow>
          (case toks of
             None \<Rightarrow> toks
           | Some ts \<Rightarrow>
               if fr_tok (p_stack p fr) < 0 then toks
               else Some (ts[nat (fr_tok (p_stack p fr)) :=
                      (ts ! nat (fr_tok (p_stack p fr)))
                        \<lparr>tk_size := tk_size (ts ! nat (fr_tok (p_stack p fr))) + 1\<rparr>])))"

definition jstok_accept_value ::
  "bool \<Rightarrow> jstok_parser \<Rightarrow> jstoktok list option \<Rightarrow> int \<times> jstok_parser \<times> jstoktok list option" where
  "jstok_accept_value strict p toks =
     (case jstok_top p of
        None \<Rightarrow>
          if strict \<and> p_root_done p \<noteq> 0
          then (JSTOK_ERROR_INVAL, jstok_set_error p JSTOK_ERROR_INVAL (p_pos p), toks)
          else (0, p\<lparr>p_root_done := 1\<rparr>, toks)
      | Some fr \<Rightarrow>
          if fr_type (p_stack p fr) = JSTOK_ARRAY then
            (if fr_st (p_stack p fr) \<noteq> JSTOK_ST_ARR_VALUE_OR_END
                \<and> fr_st (p_stack p fr) \<noteq> JSTOK_ST_ARR_VALUE
             then (JSTOK_ERROR_INVAL, jstok_set_error p JSTOK_ERROR_INVAL (p_pos p), toks)
             else (0, frame_set_st p fr JSTOK_ST_ARR_COMMA_OR_END,
                   jstok_inc_container_size p toks))
          else if fr_type (p_stack p fr) = JSTOK_OBJECT then
            (if fr_st (p_stack p fr) \<noteq> JSTOK_ST_OBJ_VALUE
             then (JSTOK_ERROR_INVAL, jstok_set_error p JSTOK_ERROR_INVAL (p_pos p), toks)
             else (0, frame_set_st p fr JSTOK_ST_OBJ_COMMA_OR_END,
                   jstok_inc_container_size p toks))
          else (JSTOK_ERROR_INVAL, jstok_set_error p JSTOK_ERROR_INVAL (p_pos p), toks))"

definition jstok_accept_key :: "jstok_parser \<Rightarrow> int \<times> jstok_parser" where
  "jstok_accept_key p =
     (case jstok_top p of
        None \<Rightarrow> (JSTOK_ERROR_INVAL, jstok_set_error p JSTOK_ERROR_INVAL (p_pos p))
      | Some fr \<Rightarrow>
          if fr_type (p_stack p fr) \<noteq> JSTOK_OBJECT
          then (JSTOK_ERROR_INVAL, jstok_set_error p JSTOK_ERROR_INVAL (p_pos p))
          else if fr_st (p_stack p fr) \<noteq> JSTOK_ST_OBJ_KEY_OR_END
                  \<and> fr_st (p_stack p fr) \<noteq> JSTOK_ST_OBJ_KEY
          then (JSTOK_ERROR_INVAL, jstok_set_error p JSTOK_ERROR_INVAL (p_pos p))
          else (0, frame_set_st p fr JSTOK_ST_OBJ_COLON))"

section \<open>Lexical recognizers\<close>

text \<open>
  The scanning loops are recursions on the position they advance. Each returns a pair
  \<open>(code, position)\<close>: code \<open>0\<close> with the position reached, or the error code with the
  position at which \<open>jstok_set_error\<close> is called.
\<close>

text \<open>The \<open>for (i = 0; i < 4; i++)\<close> loop over the digits of a \<open>\uXXXX\<close> escape.\<close>

fun jstok_string_hex :: "string \<Rightarrow> int \<Rightarrow> int \<Rightarrow> nat \<Rightarrow> int \<times> int" where
  "jstok_string_hex json json_len pos 0 = (0, pos)"
| "jstok_string_hex json json_len pos (Suc n) =
     (if pos + 1 \<ge> json_len then (JSTOK_ERROR_PART, pos + 1)
      else if \<not> jstok_is_hex (json ! nat (pos + 1)) then (JSTOK_ERROR_INVAL, pos + 1)
      else jstok_string_hex json json_len (pos + 1) n)"

text \<open>
  The \<open>while (p->pos < json_len)\<close> loop of \<open>jstok_parse_string_token\<close>, started after the
  opening quote. Code \<open>0\<close> comes with the position of the closing quote. That the
  recursion terminates is proved below.
\<close>

function jstok_string_loop :: "string \<Rightarrow> int \<Rightarrow> int \<Rightarrow> int \<times> int" where
  "jstok_string_loop json json_len pos =
     (if pos < json_len then
        (if (of_char (json ! nat pos) :: nat) < 0x20 then (JSTOK_ERROR_INVAL, pos)
         else if json ! nat pos = CHR 0x22 then (0, pos)
         else if json ! nat pos = CHR 0x5C then
           (if pos + 1 \<ge> json_len then (JSTOK_ERROR_PART, pos + 1)
            else if json ! nat (pos + 1) = CHR 0x22 \<or> json ! nat (pos + 1) = CHR 0x5C
                  \<or> json ! nat (pos + 1) = CHR ''/'' \<or> json ! nat (pos + 1) = CHR ''b''
                  \<or> json ! nat (pos + 1) = CHR ''f'' \<or> json ! nat (pos + 1) = CHR ''n''
                  \<or> json ! nat (pos + 1) = CHR ''r'' \<or> json ! nat (pos + 1) = CHR ''t''
            then jstok_string_loop json json_len (pos + 2)
            else if json ! nat (pos + 1) = CHR ''u'' then
              (if fst (jstok_string_hex json json_len (pos + 1) 4) = 0
               then jstok_string_loop json json_len
                      (snd (jstok_string_hex json json_len (pos + 1) 4) + 1)
               else jstok_string_hex json json_len (pos + 1) 4)
            else (JSTOK_ERROR_INVAL, pos + 1))
         else jstok_string_loop json json_len (pos + 1))
      else (JSTOK_ERROR_PART, pos))"
  by pat_completeness auto

definition jstok_parse_string_token ::
  "jstok_parser \<Rightarrow> string \<Rightarrow> int \<Rightarrow> jstoktok list option \<Rightarrow> int
     \<Rightarrow> int \<times> jstok_parser \<times> jstoktok list option" where
  "jstok_parse_string_token p json json_len toks max_tokens =
     (let start_quote = p_pos p in
      if p_pos p \<ge> json_len \<or> json ! nat (p_pos p) \<noteq> CHR 0x22
      then (JSTOK_ERROR_INVAL, jstok_set_error p JSTOK_ERROR_INVAL (p_pos p), toks)
      else
        (case jstok_string_loop json json_len (p_pos p + 1) of
           (r, at) \<Rightarrow>
             if r = 0 then
               (case jstok_new_token (p\<lparr>p_pos := at\<rparr>) toks max_tokens JSTOK_STRING
                       (start_quote + 1) at of
                  (i, p', toks') \<Rightarrow>
                    if i < 0 then (i, p', toks')
                    else (i, p'\<lparr>p_pos := p_pos p' + 1\<rparr>, toks'))
             else if r = JSTOK_ERROR_PART then
               (JSTOK_ERROR_PART,
                (jstok_set_error (p\<lparr>p_pos := at\<rparr>) JSTOK_ERROR_PART at)
                  \<lparr>p_pos := start_quote\<rparr>, toks)
             else (JSTOK_ERROR_INVAL,
                   jstok_set_error (p\<lparr>p_pos := at\<rparr>) JSTOK_ERROR_INVAL at, toks)))"

text \<open>
  The loop of \<open>jstok_parse_literal\<close>; the list argument is the rest of the literal from
  index \<open>i\<close>, empty where the C string has its terminating zero.
\<close>

fun jstok_literal_loop :: "string \<Rightarrow> int \<Rightarrow> int \<Rightarrow> string \<Rightarrow> int \<Rightarrow> int \<times> int" where
  "jstok_literal_loop json json_len pos [] i = (0, i)"
| "jstok_literal_loop json json_len pos (l # lit) i =
     (if pos + i \<ge> json_len then (JSTOK_ERROR_PART, pos + i)
      else if json ! nat (pos + i) \<noteq> l then (JSTOK_ERROR_INVAL, pos + i)
      else jstok_literal_loop json json_len pos lit (i + 1))"

definition jstok_parse_literal ::
  "jstok_parser \<Rightarrow> string \<Rightarrow> int \<Rightarrow> string \<Rightarrow> int \<times> jstok_parser" where
  "jstok_parse_literal p json json_len lit =
     (case jstok_literal_loop json json_len (p_pos p) lit 0 of
        (r, i) \<Rightarrow>
          if r < 0 then (r, jstok_set_error p r i)
          else if p_pos p + i < json_len \<and> \<not> jstok_is_delim (json ! nat (p_pos p + i))
          then (JSTOK_ERROR_INVAL, jstok_set_error p JSTOK_ERROR_INVAL (p_pos p + i))
          else (i, p))"

text \<open>The loops \<open>while (i < json_len && jstok_is_digit(json[i])) i++\<close>.\<close>

function jstok_skip_digits :: "string \<Rightarrow> int \<Rightarrow> int \<Rightarrow> int" where
  "jstok_skip_digits json json_len i =
     (if i < json_len \<and> jstok_is_digit (json ! nat i)
      then jstok_skip_digits json json_len (i + 1) else i)"
  by pat_completeness auto
termination
  by (relation "measure (\<lambda>(json, json_len, i). nat (json_len - i))") auto

declare jstok_skip_digits.simps [simp del]

text \<open>
  \<open>jstok_parse_number_span\<close> runs through four sections in order, each of which may return
  early; they are given here last section first, each continuing into the next.
\<close>

definition jstok_number_end :: "string \<Rightarrow> int \<Rightarrow> int \<Rightarrow> int \<times> int" where
  "jstok_number_end json json_len i =
     (if i \<ge> json_len then (JSTOK_ERROR_PART, i)
      else if i < json_len \<and> \<not> jstok_is_delim (json ! nat i) then (JSTOK_ERROR_INVAL, i)
      else (0, i))"

definition jstok_number_exp :: "string \<Rightarrow> int \<Rightarrow> int \<Rightarrow> int \<times> int" where
  "jstok_number_exp json json_len i =
     (if i < json_len \<and> (json ! nat i = CHR ''e'' \<or> json ! nat i = CHR ''E'') then
        (if i + 1 \<ge> json_len then (JSTOK_ERROR_PART, i + 1)
         else if json ! nat (i + 1) = CHR ''+'' \<or> json ! nat (i + 1) = CHR ''-'' then
           (if i + 2 \<ge> json_len then (JSTOK_ERROR_PART, i + 2)
            else if \<not> jstok_is_digit (json ! nat (i + 2)) then (JSTOK_ERROR_INVAL, i + 2)
            else jstok_number_end json json_len (jstok_skip_digits json json_len (i + 2)))
         else if \<not> jstok_is_digit (json ! nat (i + 1)) then (JSTOK_ERROR_INVAL, i + 1)
         else jstok_number_end json json_len (jstok_skip_digits json json_len (i + 1)))
      else jstok_number_end json json_len i)"

definition jstok_number_frac :: "string \<Rightarrow> int \<Rightarrow> int \<Rightarrow> int \<times> int" where
  "jstok_number_frac json json_len i =
     (if i < json_len \<and> json ! nat i = CHR ''.'' then
        (if i + 1 \<ge> json_len then (JSTOK_ERROR_PART, i + 1)
         else if \<not> jstok_is_digit (json ! nat (i + 1)) then (JSTOK_ERROR_INVAL, i + 1)
         else jstok_number_exp json json_len (jstok_skip_digits json json_len (i + 1)))
      else jstok_number_exp json json_len i)"

definition jstok_number_int :: "bool \<Rightarrow> string \<Rightarrow> int \<Rightarrow> int \<Rightarrow> int \<times> int" where
  "jstok_number_int strict json json_len i =
     (if json ! nat i = CHR ''0'' then
        (if i + 1 < json_len \<and> jstok_is_digit (json ! nat (i + 1)) \<and> strict
         then (JSTOK_ERROR_INVAL, i + 1)
         else jstok_number_frac json json_len (i + 1))
      else if (of_char (CHR ''1'') :: nat) \<le> of_char (json ! nat i)
             \<and> (of_char (json ! nat i) :: nat) \<le> of_char (CHR ''9'')
      then jstok_number_frac json json_len (jstok_skip_digits json json_len (i + 1))
      else (JSTOK_ERROR_INVAL, i))"

definition jstok_number_scan :: "bool \<Rightarrow> string \<Rightarrow> int \<Rightarrow> int \<Rightarrow> int \<times> int" where
  "jstok_number_scan strict json json_len i =
     (if i \<ge> json_len then (JSTOK_ERROR_PART, i)
      else if json ! nat i = CHR ''-'' then
        (if i + 1 \<ge> json_len then (JSTOK_ERROR_PART, i + 1)
         else jstok_number_int strict json json_len (i + 1))
      else jstok_number_int strict json json_len i)"

text \<open>Returns the code, the parser and the value written to \<open>*out_end\<close> (if any).\<close>

definition jstok_parse_number_span ::
  "bool \<Rightarrow> jstok_parser \<Rightarrow> string \<Rightarrow> int \<Rightarrow> int \<Rightarrow> int \<times> jstok_parser \<times> int" where
  "jstok_parse_number_span strict p json json_len out_end =
     (case jstok_number_scan strict json json_len (p_pos p) of
        (r, i) \<Rightarrow> if r < 0 then (r, jstok_set_error p r i, out_end) else (0, p, i))"

text \<open>The three literal branches of \<open>jstok_parse_primitive_token\<close> share this body.\<close>

definition jstok_primitive_literal ::
  "jstok_parser \<Rightarrow> string \<Rightarrow> int \<Rightarrow> jstoktok list option \<Rightarrow> int \<Rightarrow> string
     \<Rightarrow> int \<times> jstok_parser \<times> jstoktok list option" where
  "jstok_primitive_literal p json json_len toks max_tokens lit =
     (let start = p_pos p in
      case jstok_parse_literal p json json_len lit of
        (n, p') \<Rightarrow>
          if n < 0 then (n, p', toks)
          else jstok_new_token (p'\<lparr>p_pos := p_pos p' + n\<rparr>) toks max_tokens JSTOK_PRIMITIVE
                 start (p_pos p' + n))"

definition jstok_parse_primitive_token ::
  "bool \<Rightarrow> jstok_parser \<Rightarrow> string \<Rightarrow> int \<Rightarrow> jstoktok list option \<Rightarrow> int
     \<Rightarrow> int \<times> jstok_parser \<times> jstoktok list option" where
  "jstok_parse_primitive_token strict p json json_len toks max_tokens =
     (let start = p_pos p in
      if p_pos p \<ge> json_len
      then (JSTOK_ERROR_PART, jstok_set_error p JSTOK_ERROR_PART (p_pos p), toks)
      else if json ! nat (p_pos p) = CHR ''t''
      then jstok_primitive_literal p json json_len toks max_tokens ''true''
      else if json ! nat (p_pos p) = CHR ''f''
      then jstok_primitive_literal p json json_len toks max_tokens ''false''
      else if json ! nat (p_pos p) = CHR ''n''
      then jstok_primitive_literal p json json_len toks max_tokens ''null''
      else
        (case jstok_parse_number_span strict p json json_len 0 of
           (n, p', endpos) \<Rightarrow>
             if n < 0 then (n, p', toks)
             else jstok_new_token (p'\<lparr>p_pos := endpos\<rparr>) toks max_tokens JSTOK_PRIMITIVE
                    start endpos))"

section \<open>Containers\<close>

definition jstok_start_container ::
  "bool \<Rightarrow> jstok_parser \<Rightarrow> jstoktok list option \<Rightarrow> int \<Rightarrow> jstoktype_t
     \<Rightarrow> int \<times> jstok_parser \<times> jstoktok list option" where
  "jstok_start_container strict p toks max_tokens ty =
     (case jstok_accept_value strict p toks of
        (r, p1, toks1) \<Rightarrow>
          if r < 0 then (r, p1, toks1)
          else
            (case jstok_new_token p1 toks1 max_tokens ty (p_pos p1) (- 1) of
               (tok_idx, p2, toks2) \<Rightarrow>
                 if tok_idx < 0 then (tok_idx, p2, toks2)
                 else
                   (case jstok_push p2 ty
                           (if ty = JSTOK_OBJECT then JSTOK_ST_OBJ_KEY_OR_END
                            else JSTOK_ST_ARR_VALUE_OR_END)
                           (if toks \<noteq> None then tok_idx else - 1) of
                      (pushed, p3) \<Rightarrow>
                        if pushed < 0 then (pushed, p3, toks2)
                        else (tok_idx, p3\<lparr>p_pos := p_pos p3 + 1\<rparr>, toks2))))"

text \<open>The writes to \<open>toks[tok_idx]\<close> when a container closes.\<close>

definition jstok_close_token :: "jstoktok \<Rightarrow> jstoktype_t \<Rightarrow> int \<Rightarrow> jstoktok" where
  "jstok_close_token t ty pos =
     (let t1 = t\<lparr>tk_end := pos + 1\<rparr>;
          t2 = (if tk_start t1 < 0 then t1\<lparr>tk_start := pos\<rparr> else t1)
      in if tk_type t2 \<noteq> ty then t2\<lparr>tk_type := ty\<rparr> else t2)"

definition jstok_end_container ::
  "jstok_parser \<Rightarrow> jstoktok list option \<Rightarrow> jstoktype_t \<Rightarrow> char
     \<Rightarrow> int \<times> jstok_parser \<times> jstoktok list option" where
  "jstok_end_container p toks ty closer =
     (case jstok_top p of
        None \<Rightarrow> (JSTOK_ERROR_INVAL, jstok_set_error p JSTOK_ERROR_INVAL (p_pos p), toks)
      | Some fr \<Rightarrow>
          if fr_type (p_stack p fr) \<noteq> ty
          then (JSTOK_ERROR_INVAL, jstok_set_error p JSTOK_ERROR_INVAL (p_pos p), toks)
          else if
            (if ty = JSTOK_OBJECT then
               (if fr_st (p_stack p fr) = JSTOK_ST_OBJ_KEY then True
                else if fr_st (p_stack p fr) = JSTOK_ST_OBJ_COLON
                        \<or> fr_st (p_stack p fr) = JSTOK_ST_OBJ_VALUE then True
                else if fr_st (p_stack p fr) = JSTOK_ST_OBJ_KEY_OR_END
                        \<or> fr_st (p_stack p fr) = JSTOK_ST_OBJ_COMMA_OR_END then False
                else True)
             else
               (if fr_st (p_stack p fr) = JSTOK_ST_ARR_VALUE then True
                else if fr_st (p_stack p fr) = JSTOK_ST_ARR_VALUE_OR_END
                        \<or> fr_st (p_stack p fr) = JSTOK_ST_ARR_COMMA_OR_END then False
                else True))
          then (JSTOK_ERROR_INVAL, jstok_set_error p JSTOK_ERROR_INVAL (p_pos p), toks)
          else
            (let tok_idx = fr_tok (p_stack p fr);
                 toks' = (case toks of
                            Some ts \<Rightarrow>
                              if tok_idx \<ge> 0
                              then Some (ts[nat tok_idx :=
                                     jstok_close_token (ts ! nat tok_idx) ty (p_pos p)])
                              else toks
                          | None \<Rightarrow> toks);
                 p' = jstok_pop p
             in (0, if closer \<noteq> CHR 0x00 then p'\<lparr>p_pos := p_pos p' + 1\<rparr> else p', toks')))"

section \<open>The driver\<close>

text \<open>
  The block "Rollback accept_value side effects" of \<open>jstok_parse\<close>. The locals \<open>fr\<close>,
  \<open>saved_st\<close> and \<open>saved_root_done\<close> were read from the parser \<open>p0\<close> as it was before
  \<open>jstok_accept_value\<close> ran; \<open>p\<close> and \<open>toks\<close> are the current parser and token array.
\<close>

definition jstok_rollback_value ::
  "jstok_parser \<Rightarrow> jstok_parser \<Rightarrow> jstoktok list option
     \<Rightarrow> jstok_parser \<times> jstoktok list option" where
  "jstok_rollback_value p0 p toks =
     (case jstok_top p0 of
        Some fr \<Rightarrow>
          (frame_set_st p fr (fr_st (p_stack p0 fr)),
           (case toks of
              Some ts \<Rightarrow>
                if fr_tok (p_stack p fr) \<ge> 0
                then Some (ts[nat (fr_tok (p_stack p fr)) :=
                       (ts ! nat (fr_tok (p_stack p fr)))
                         \<lparr>tk_size := tk_size (ts ! nat (fr_tok (p_stack p fr))) - 1\<rparr>])
                else toks
            | None \<Rightarrow> toks))
      | None \<Rightarrow> (p\<lparr>p_root_done := p_root_done p0\<rparr>, toks))"

text \<open>
  One iteration of the \<open>while (p->pos < json_len)\<close> loop of \<open>jstok_parse\<close>. The first
  component is \<open>Some r\<close> where the iteration executes \<open>return r\<close> and \<open>None\<close> where it
  reaches \<open>continue\<close>. The larger branches are definitions of their own.
\<close>

definition jstok_parse_key ::
  "jstok_parser \<Rightarrow> string \<Rightarrow> int \<Rightarrow> jstoktok list option \<Rightarrow> int \<Rightarrow> nat
     \<Rightarrow> int option \<times> jstok_parser \<times> jstoktok list option" where
  "jstok_parse_key p json json_len toks max_tokens fr =
     (case jstok_parse_string_token p json json_len toks max_tokens of
        (tok_idx, p1, toks1) \<Rightarrow>
          if tok_idx < 0 then
            (if tok_idx = JSTOK_ERROR_PART
             then (Some tok_idx, frame_set_st p1 fr (fr_st (p_stack p fr)), toks1)
             else (Some tok_idx, p1, toks1))
          else
            (case jstok_accept_key p1 of
               (r, p2) \<Rightarrow> if r < 0 then (Some r, p2, toks1) else (None, p2, toks1)))"

definition jstok_parse_string_value ::
  "bool \<Rightarrow> jstok_parser \<Rightarrow> string \<Rightarrow> int \<Rightarrow> jstoktok list option \<Rightarrow> int
     \<Rightarrow> int option \<times> jstok_parser \<times> jstoktok list option" where
  "jstok_parse_string_value strict p json json_len toks max_tokens =
     (case jstok_accept_value strict p toks of
        (r, p1, toks1) \<Rightarrow>
          if r < 0 then (Some r, p1, toks1)
          else
            (case jstok_parse_string_token p1 json json_len toks1 max_tokens of
               (tok_idx, p2, toks2) \<Rightarrow>
                 if tok_idx < 0 then
                   (if tok_idx = JSTOK_ERROR_PART
                    then (case jstok_rollback_value p p2 toks2 of
                            (p3, toks3) \<Rightarrow> (Some tok_idx, p3, toks3))
                    else (Some tok_idx, p2, toks2))
                 else (None, p2, toks2)))"

definition jstok_parse_primitive_value ::
  "bool \<Rightarrow> jstok_parser \<Rightarrow> string \<Rightarrow> int \<Rightarrow> jstoktok list option \<Rightarrow> int
     \<Rightarrow> int option \<times> jstok_parser \<times> jstoktok list option" where
  "jstok_parse_primitive_value strict p json json_len toks max_tokens =
     (case jstok_accept_value strict p toks of
        (r, p1, toks1) \<Rightarrow>
          if r < 0 then (Some r, p1, toks1)
          else
            (case jstok_parse_primitive_token strict p1 json json_len toks1 max_tokens of
               (r', p2, toks2) \<Rightarrow>
                 if r' < 0 then
                   (if r' = JSTOK_ERROR_PART
                    then (case jstok_rollback_value p p2 toks2 of
                            (p3, toks3) \<Rightarrow> (Some r', p3, toks3))
                    else (Some r', p2, toks2))
                 else (None, p2, toks2)))"

definition jstok_parse_colon ::
  "jstok_parser \<Rightarrow> jstoktok list option
     \<Rightarrow> int option \<times> jstok_parser \<times> jstoktok list option" where
  "jstok_parse_colon p toks =
     (case jstok_top p of
        None \<Rightarrow>
          (Some JSTOK_ERROR_INVAL, jstok_set_error p JSTOK_ERROR_INVAL (p_pos p), toks)
      | Some fr \<Rightarrow>
          if fr_type (p_stack p fr) \<noteq> JSTOK_OBJECT
             \<or> fr_st (p_stack p fr) \<noteq> JSTOK_ST_OBJ_COLON
          then (Some JSTOK_ERROR_INVAL, jstok_set_error p JSTOK_ERROR_INVAL (p_pos p), toks)
          else (None, (frame_set_st p fr JSTOK_ST_OBJ_VALUE)\<lparr>p_pos := p_pos p + 1\<rparr>, toks))"

definition jstok_parse_comma ::
  "jstok_parser \<Rightarrow> jstoktok list option
     \<Rightarrow> int option \<times> jstok_parser \<times> jstoktok list option" where
  "jstok_parse_comma p toks =
     (case jstok_top p of
        None \<Rightarrow>
          (Some JSTOK_ERROR_INVAL, jstok_set_error p JSTOK_ERROR_INVAL (p_pos p), toks)
      | Some fr \<Rightarrow>
          if fr_type (p_stack p fr) = JSTOK_OBJECT then
            (if fr_st (p_stack p fr) \<noteq> JSTOK_ST_OBJ_COMMA_OR_END
             then (Some JSTOK_ERROR_INVAL,
                   jstok_set_error p JSTOK_ERROR_INVAL (p_pos p), toks)
             else (None, (frame_set_st p fr JSTOK_ST_OBJ_KEY)\<lparr>p_pos := p_pos p + 1\<rparr>, toks))
          else
            (if fr_st (p_stack p fr) \<noteq> JSTOK_ST_ARR_COMMA_OR_END
             then (Some JSTOK_ERROR_INVAL,
                   jstok_set_error p JSTOK_ERROR_INVAL (p_pos p), toks)
             else (None, (frame_set_st p fr JSTOK_ST_ARR_VALUE)\<lparr>p_pos := p_pos p + 1\<rparr>,
                   toks)))"

text \<open>A call whose negative result is returned and whose success continues the loop.\<close>

definition jstok_return_if_negative ::
  "int \<times> jstok_parser \<times> jstoktok list option
     \<Rightarrow> int option \<times> jstok_parser \<times> jstoktok list option" where
  "jstok_return_if_negative res =
     (case res of (r, p', toks') \<Rightarrow> if r < 0 then (Some r, p', toks') else (None, p', toks'))"

definition jstok_parse_step ::
  "bool \<Rightarrow> string \<Rightarrow> int \<Rightarrow> int \<Rightarrow> jstok_parser \<Rightarrow> jstoktok list option
     \<Rightarrow> int option \<times> jstok_parser \<times> jstoktok list option" where
  "jstok_parse_step strict json json_len max_tokens p toks =
     (let c = json ! nat (p_pos p) in
      if jstok_is_space c then (None, p\<lparr>p_pos := p_pos p + 1\<rparr>, toks)
      else if c = CHR ''{'' then
        jstok_return_if_negative (jstok_start_container strict p toks max_tokens JSTOK_OBJECT)
      else if c = CHR ''['' then
        jstok_return_if_negative (jstok_start_container strict p toks max_tokens JSTOK_ARRAY)
      else if c = CHR ''}'' \<or> c = CHR '']'' then
        (if c = CHR ''}''
         then jstok_return_if_negative (jstok_end_container p toks JSTOK_OBJECT (CHR ''}''))
         else jstok_return_if_negative (jstok_end_container p toks JSTOK_ARRAY (CHR '']'')))
      else if c = CHR '':'' then jstok_parse_colon p toks
      else if c = CHR '','' then jstok_parse_comma p toks
      else if c = CHR 0x22 then
        (case jstok_top p of
           Some fr \<Rightarrow>
             if fr_type (p_stack p fr) = JSTOK_OBJECT
                \<and> (fr_st (p_stack p fr) = JSTOK_ST_OBJ_KEY_OR_END
                    \<or> fr_st (p_stack p fr) = JSTOK_ST_OBJ_KEY)
             then jstok_parse_key p json json_len toks max_tokens fr
             else jstok_parse_string_value strict p json json_len toks max_tokens
         | None \<Rightarrow> jstok_parse_string_value strict p json json_len toks max_tokens)
      else jstok_parse_primitive_value strict p json json_len toks max_tokens)"

text \<open>What \<open>jstok_parse\<close> does once the loop condition fails.\<close>

definition jstok_parse_finish ::
  "bool \<Rightarrow> jstok_parser \<Rightarrow> jstoktok list option
     \<Rightarrow> int \<times> jstok_parser \<times> jstoktok list option" where
  "jstok_parse_finish strict p toks =
     (if strict \<and> p_depth p = 0 \<and> p_root_done p = 0
      then (JSTOK_ERROR_PART, jstok_set_error p JSTOK_ERROR_PART (p_pos p), toks)
      else if p_depth p \<noteq> 0
      then (JSTOK_ERROR_PART, jstok_set_error p JSTOK_ERROR_PART (p_pos p), toks)
      else (p_toknext p, p, toks))"

section \<open>The parse loop and the public entry point\<close>

text \<open>
  The \<open>while (p->pos < json_len)\<close> loop of \<open>jstok_parse\<close> with the code after it. That
  the recursion terminates is proved below, once every continuing iteration is shown
  to advance the position.
\<close>

function jstok_parse_loop ::
  "bool \<Rightarrow> string \<Rightarrow> int \<Rightarrow> int \<Rightarrow> jstok_parser \<Rightarrow> jstoktok list option
     \<Rightarrow> int \<times> jstok_parser \<times> jstoktok list option" where
  "jstok_parse_loop strict json json_len max_tokens p toks =
     (if p_pos p < json_len then
        (case jstok_parse_step strict json json_len max_tokens p toks of
           (Some r, p', toks') \<Rightarrow> (r, p', toks')
         | (None, p', toks') \<Rightarrow> jstok_parse_loop strict json json_len max_tokens p' toks')
      else jstok_parse_finish strict p toks)"
  by pat_completeness auto

definition jstok_parse ::
  "bool \<Rightarrow> jstok_parser option \<Rightarrow> string option \<Rightarrow> int \<Rightarrow> jstoktok list option \<Rightarrow> int
     \<Rightarrow> int \<times> jstok_parser option \<times> jstoktok list option" where
  "jstok_parse strict p json json_len tokens max_tokens =
     (case p of
        None \<Rightarrow> (JSTOK_ERROR_INVAL, None, tokens)
      | Some pp \<Rightarrow>
          (case json of
             None \<Rightarrow> (JSTOK_ERROR_INVAL, Some (jstok_set_error pp JSTOK_ERROR_INVAL 0), tokens)
           | Some js \<Rightarrow>
               if json_len < 0
               then (JSTOK_ERROR_INVAL, Some (jstok_set_error pp JSTOK_ERROR_INVAL 0), tokens)
               else
                 (case jstok_parse_loop strict js json_len max_tokens
                         (pp\<lparr>p_error_pos := - 1, p_error_code := 0\<rparr>) tokens of
                    (r, p', toks') \<Rightarrow> (r, Some p', toks'))))"

section \<open>Helpers: subtree skip\<close>

text \<open>
  Signed overflow is undefined in C; where \<open>jstok_skip\<close> computes with token sizes that
  the caller supplies, the two's complement wrap-around of the usual targets is written
  out.
\<close>

definition int32_wrap :: "int \<Rightarrow> int" where
  "int32_wrap x = (x + 2 ^ 31) mod 2 ^ 32 - 2 ^ 31"

text \<open>
  The \<open>while (sp > 0)\<close> loop of \<open>jstok_skip\<close>. The local array \<open>rem\<close> with its fill level
  \<open>sp\<close> is a list with \<open>rem[sp - 1]\<close> at its head, so that \<open>sp\<close> is its length.
\<close>

function jstok_skip_loop :: "jstoktok list \<Rightarrow> int \<Rightarrow> int list \<Rightarrow> int \<Rightarrow> int" where
  "jstok_skip_loop toks count [] idx = idx"
| "jstok_skip_loop toks count (r # rem) idx =
     (if r = 0 then jstok_skip_loop toks count rem idx
      else if idx \<ge> count then count
      else if tk_type (toks ! nat idx) = JSTOK_STRING
              \<or> tk_type (toks ! nat idx) = JSTOK_PRIMITIVE
      then jstok_skip_loop toks count (int32_wrap (r - 1) # rem) (idx + 1)
      else if int (length (r # rem)) \<ge> JSTOK_MAX_DEPTH then count
      else if tk_type (toks ! nat idx) = JSTOK_ARRAY
      then jstok_skip_loop toks count
             (tk_size (toks ! nat idx) # int32_wrap (r - 1) # rem) (idx + 1)
      else if tk_type (toks ! nat idx) = JSTOK_OBJECT
      then jstok_skip_loop toks count
             (int32_wrap (tk_size (toks ! nat idx) * 2) # int32_wrap (r - 1) # rem) (idx + 1)
      else jstok_skip_loop toks count (int32_wrap (r - 1) # rem) (idx + 1))"
  by pat_completeness auto
termination
  by (relation "measures [\<lambda>(toks, count, rem, idx). nat (count - idx),
                          \<lambda>(toks, count, rem, idx). length rem]") auto

declare jstok_skip_loop.simps(2) [simp del]

definition jstok_skip :: "jstoktok list option \<Rightarrow> int \<Rightarrow> int \<Rightarrow> int" where
  "jstok_skip toks count i =
     (case toks of
        None \<Rightarrow> count
      | Some ts \<Rightarrow>
          if i < 0 \<or> i \<ge> count then count
          else if tk_type (ts ! nat i) = JSTOK_STRING \<or> tk_type (ts ! nat i) = JSTOK_PRIMITIVE
          then i + 1
          else if tk_type (ts ! nat i) = JSTOK_ARRAY
          then jstok_skip_loop ts count [tk_size (ts ! nat i)] (i + 1)
          else if tk_type (ts ! nat i) = JSTOK_OBJECT
          then jstok_skip_loop ts count [int32_wrap (tk_size (ts ! nat i) * 2)] (i + 1)
          else i + 1)"

section \<open>Helpers: the SSE line scanner\<close>

text \<open>The loop \<open>while (i < len && buf[i] != '\n') i++\<close>.\<close>

function jstok_sse_scan :: "string \<Rightarrow> int \<Rightarrow> int \<Rightarrow> int" where
  "jstok_sse_scan buf len i =
     (if i < len \<and> buf ! nat i \<noteq> CHR 0x0A then jstok_sse_scan buf len (i + 1) else i)"
  by pat_completeness auto
termination
  by (relation "measure (\<lambda>(buf, len, i). nat (len - i))") auto

declare jstok_sse_scan.simps [simp del]

text \<open>
  \<open>jstok_str_prefix(buf + start, len, prefix)\<close>: the pointer \<open>buf + start\<close> is the pair of
  the buffer and the offset; the list argument is the rest of the prefix from index \<open>i\<close>.
\<close>

fun jstok_str_prefix :: "string \<Rightarrow> int \<Rightarrow> int \<Rightarrow> string \<Rightarrow> int \<Rightarrow> int" where
  "jstok_str_prefix buf start len [] i = i"
| "jstok_str_prefix buf start len (c # prefix) i =
     (if i \<ge> len \<or> buf ! nat (start + i) \<noteq> c then 0
      else jstok_str_prefix buf start len prefix (i + 1))"

text \<open>The length of the line from \<open>start\<close> to the newline at \<open>i\<close>, without a final \<open>\r\<close>.\<close>

definition jstok_sse_line_len :: "string \<Rightarrow> int \<Rightarrow> int \<Rightarrow> int" where
  "jstok_sse_line_len buf start i =
     (if i - start > 0 \<and> buf ! nat (start + (i - start) - 1) = CHR 0x0D
      then i - start - 1 else i - start)"

text \<open>
  The span \<open>*out\<close> is the pair of the payload's offset in \<open>buf\<close> and its length; \<open>None\<close>
  is \<open>out == NULL\<close>. The result is the return value, the new \<open>*pos\<close> and the new \<open>*out\<close>.
  That the recursion terminates is proved below.
\<close>

function jstok_sse_next ::
  "string \<Rightarrow> int \<Rightarrow> int \<Rightarrow> (int \<times> int) option \<Rightarrow> int \<times> int \<times> (int \<times> int) option" where
  "jstok_sse_next buf len pos out =
     (if jstok_sse_scan buf len pos \<ge> len then (0, pos, out)
      else if jstok_sse_line_len buf pos (jstok_sse_scan buf len pos) = 0
      then jstok_sse_next buf len (jstok_sse_scan buf len pos + 1) out
      else if jstok_str_prefix buf pos
                (jstok_sse_line_len buf pos (jstok_sse_scan buf len pos)) ''data:'' 0 > 0
      then
        (let line_len = jstok_sse_line_len buf pos (jstok_sse_scan buf len pos);
             prefix_len = jstok_str_prefix buf pos line_len ''data:'' 0;
             payload = pos + prefix_len;
             payload_len = line_len - prefix_len;
             skip = (payload_len > 0 \<and> buf ! nat payload = CHR '' '')
         in (1, jstok_sse_scan buf len pos + 1,
             if out \<noteq> None
             then Some (if skip then payload + 1 else payload,
                        if skip then payload_len - 1 else payload_len)
             else None))
      else jstok_sse_next buf len (jstok_sse_scan buf len pos + 1) out)"
  by pat_completeness auto

section \<open>Concrete values for instantiating the results\<close>

text \<open>A parser struct and a token as they may look before \<open>jstok_init\<close>: arbitrary contents.\<close>

definition stale_parser :: jstok_parser where
  "stale_parser =
     \<lparr>p_pos = 5, p_toknext = 7, p_depth = 3, p_root_done = 1, p_error_pos = 9,
      p_error_code = - 2,
      p_stack = (\<lambda>_. \<lparr>fr_type = JSTOK_UNDEFINED, fr_st = JSTOK_ST_OBJ_KEY, fr_tok = 0\<rparr>)\<rparr>"

definition stale_token :: jstoktok where
  "stale_token = \<lparr>tk_type = JSTOK_UNDEFINED, tk_start = 11, tk_end = 3, tk_size = 2\<rparr>"

text \<open>A parser that stands just after the \<open>[\<close> of an array it has opened.\<close>

definition open_array_parser :: jstok_parser where
  "open_array_parser =
     \<lparr>p_pos = 1, p_toknext = 1, p_depth = 1, p_root_done = 1, p_error_pos = - 1,
      p_error_code = 0,
      p_stack = (p_stack stale_parser)(0 :=
        \<lparr>fr_type = JSTOK_ARRAY, fr_st = JSTOK_ST_ARR_VALUE_OR_END, fr_tok = 0\<rparr>)\<rparr>"

section \<open>The bytes of a string that the buffer cuts off\<close>

text \<open>
  These describe the input, not the code. Inside a string a plain byte is any byte but a
  control byte, the quote and the backslash; a unit is a plain byte, one of the eight
  two-byte escapes, or \<open>\u\<close> with four hexadecimal digits. A string is cut off when, after
  complete units, the buffer ends at once, or after a lone backslash, or after \<open>\u\<close> with
  fewer than four hexadecimal digits.
\<close>

definition jstok_string_plain :: "char \<Rightarrow> bool" where
  "jstok_string_plain c \<longleftrightarrow>
     \<not> (of_char c :: nat) < 0x20 \<and> c \<noteq> CHR 0x22 \<and> c \<noteq> CHR 0x5C"

definition jstok_string_simple_escape :: "char \<Rightarrow> bool" where
  "jstok_string_simple_escape e \<longleftrightarrow>
     e = CHR 0x22 \<or> e = CHR 0x5C \<or> e = CHR ''/'' \<or> e = CHR ''b''
     \<or> e = CHR ''f'' \<or> e = CHR ''n'' \<or> e = CHR ''r'' \<or> e = CHR ''t''"

definition jstok_string_unit :: "string \<Rightarrow> bool" where
  "jstok_string_unit u \<longleftrightarrow>
     (length u = 1 \<and> jstok_string_plain (u ! 0))
     \<or> (length u = 2 \<and> u ! 0 = CHR 0x5C \<and> jstok_string_simple_escape (u ! 1))
     \<or> (length u = 6 \<and> u ! 0 = CHR 0x5C \<and> u ! 1 = CHR ''u''
         \<and> list_all jstok_is_hex (drop 2 u))"

definition jstok_string_cut :: "string \<Rightarrow> bool" where
  "jstok_string_cut tail \<longleftrightarrow>
     tail = [] \<or> tail = [CHR 0x5C]
     \<or> (2 \<le> length tail \<and> length tail < 6 \<and> tail ! 0 = CHR 0x5C \<and> tail ! 1 = CHR ''u''
         \<and> list_all jstok_is_hex (drop 2 tail))"

text \<open>
  The parser states in which a string may start: at top level (in the strict build only
  before the root value), in an array that expects a value, or in an object that expects
  a key or a value.
\<close>

definition jstok_string_admitted :: "bool \<Rightarrow> jstok_parser \<Rightarrow> bool" where
  "jstok_string_admitted strict p \<longleftrightarrow>
     (case jstok_top p of
        None \<Rightarrow> \<not> (strict \<and> p_root_done p \<noteq> 0)
      | Some fr \<Rightarrow>
          (fr_type (p_stack p fr) = JSTOK_ARRAY
             \<and> (fr_st (p_stack p fr) = JSTOK_ST_ARR_VALUE_OR_END
                 \<or> fr_st (p_stack p fr) = JSTOK_ST_ARR_VALUE))
          \<or> (fr_type (p_stack p fr) = JSTOK_OBJECT
               \<and> (fr_st (p_stack p fr) = JSTOK_ST_OBJ_KEY_OR_END
                   \<or> fr_st (p_stack p fr) = JSTOK_ST_OBJ_KEY
                   \<or> fr_st (p_stack p fr) = JSTOK_ST_OBJ_VALUE)))"

section \<open>Relations and invariants used in the proofs\<close>



text \<open>A step is quiet when it leaves the error fields as they were and does not lower \<open>toknext\<close>.\<close>

definition jstok_quiet :: "jstok_parser \<Rightarrow> jstok_parser \<Rightarrow> bool" where
  "jstok_quiet p p' \<longleftrightarrow> p_error_code p' = p_error_code p \<and> p_error_pos p' = p_error_pos p
     \<and> p_toknext p \<le> p_toknext p'"

text \<open>
  Two token arrays agree up to \<open>n\<close> when both are absent, or both are present with the
  same length and the same tokens at the indices below \<open>n\<close>. Two runs agree when the
  parsers are equal in every field and in the frames below the depth, and the token
  arrays agree up to \<open>toknext\<close>.
\<close>

definition jstok_tokens_agree ::
  "int \<Rightarrow> jstoktok list option \<Rightarrow> jstoktok list option \<Rightarrow> bool" where
  "jstok_tokens_agree n toks toks' \<longleftrightarrow>
     (case toks of
        None \<Rightarrow> toks' = None
      | Some ts \<Rightarrow>
          (\<exists>ts'. toks' = Some ts' \<and> length ts = length ts'
             \<and> (\<forall>i. int i < n \<longrightarrow> i < length ts \<longrightarrow> ts ! i = ts' ! i)))"

definition jstok_agree ::
  "jstok_parser \<Rightarrow> jstoktok list option \<Rightarrow> jstok_parser \<Rightarrow> jstoktok list option \<Rightarrow> bool" where
  "jstok_agree p toks p' toks' \<longleftrightarrow>
     p_pos p = p_pos p' \<and> p_toknext p = p_toknext p' \<and> p_depth p = p_depth p'
     \<and> p_root_done p = p_root_done p' \<and> p_error_pos p = p_error_pos p'
     \<and> p_error_code p = p_error_code p'
     \<and> (\<forall>i. int i < p_depth p \<longrightarrow> p_stack p i = p_stack p' i)
     \<and> jstok_tokens_agree (p_toknext p) toks toks'"

definition jstok_agree_result ::
  "'r \<times> jstok_parser \<times> jstoktok list option \<Rightarrow> 'r \<times> jstok_parser \<times> jstoktok list option
     \<Rightarrow> bool" where
  "jstok_agree_result a b \<longleftrightarrow>
     fst a = fst b \<and> jstok_agree (fst (snd a)) (snd (snd a)) (fst (snd b)) (snd (snd b))"



section \<open>Termination of the string scan\<close>

text \<open>Four hexadecimal digits move the position by four, so the scan goes forward.\<close>

lemma jstok_string_hex_pos:
  "jstok_string_hex json json_len pos n = (0, pos') \<Longrightarrow> pos' = pos + int n"
proof (induction n arbitrary: pos)
  case 0
  then show ?case by simp
next
  case (Suc n)
  from Suc.prems have "jstok_string_hex json json_len (pos + 1) n = (0, pos')"
    by (simp split: if_splits)
  from Suc.IH [OF this] show ?case by simp
qed

termination jstok_string_loop
proof (relation "measure (\<lambda>(json, json_len, pos). nat (json_len - pos))")
  fix json :: string and json_len pos :: int
  assume "pos < json_len" and "fst (jstok_string_hex json json_len (pos + 1) 4) = 0"
  then have "snd (jstok_string_hex json json_len (pos + 1) 4) = pos + 1 + int 4"
    using jstok_string_hex_pos [of json json_len "pos + 1" 4
        "snd (jstok_string_hex json json_len (pos + 1) 4)"]
    by (metis prod.collapse)
  with \<open>pos < json_len\<close>
  show "((json, json_len, snd (jstok_string_hex json json_len (pos + 1) 4) + 1),
         (json, json_len, pos)) \<in> measure (\<lambda>(json, json_len, pos). nat (json_len - pos))"
    by simp
qed auto

declare jstok_string_loop.simps [simp del]

section \<open>Every continuing iteration advances the position\<close>

lemma jstok_string_hex4:
  "fst (jstok_string_hex json json_len pos 4) = 0 \<Longrightarrow>
   snd (jstok_string_hex json json_len pos 4) = pos + 4"
  using jstok_string_hex_pos [of json json_len pos 4 "snd (jstok_string_hex json json_len pos 4)"]
  by (cases "jstok_string_hex json json_len pos 4") simp

lemma jstok_string_loop_ge:
  "jstok_string_loop json json_len pos = (0, q) \<Longrightarrow> pos \<le> q"
proof (induction json json_len pos rule: jstok_string_loop.induct)
  case (1 json json_len pos)
  from "1.prems" show ?case
    apply (subst (asm) jstok_string_loop.simps)
    apply (simp split: if_splits)
    using "1.IH" jstok_string_hex4 [of json json_len "pos + 1"] apply (auto split: if_splits)
    done
qed

lemma jstok_skip_digits_ge: "i \<le> jstok_skip_digits json json_len i"
proof (induction json json_len i rule: jstok_skip_digits.induct)
  case (1 json json_len i)
  then show ?case
    by (subst jstok_skip_digits.simps) (auto split: if_splits)
qed

lemma jstok_number_end_ge:
  "jstok_number_end json json_len i = (r, e) \<Longrightarrow> 0 \<le> r \<Longrightarrow> i \<le> e"
  by (auto simp: jstok_number_end_def split: if_splits)

lemma jstok_number_exp_ge:
  "jstok_number_exp json json_len i = (r, e) \<Longrightarrow> 0 \<le> r \<Longrightarrow> i \<le> e"
  using jstok_skip_digits_ge [of "i + 1" json json_len]
    jstok_skip_digits_ge [of "i + 2" json json_len]
  by (auto simp: jstok_number_exp_def split: if_splits dest!: jstok_number_end_ge)

lemma jstok_number_frac_ge:
  "jstok_number_frac json json_len i = (r, e) \<Longrightarrow> 0 \<le> r \<Longrightarrow> i \<le> e"
  using jstok_skip_digits_ge [of "i + 1" json json_len]
  by (auto simp: jstok_number_frac_def split: if_splits dest!: jstok_number_exp_ge)

lemma jstok_number_int_gt:
  "jstok_number_int strict json json_len i = (r, e) \<Longrightarrow> 0 \<le> r \<Longrightarrow> i < e"
  using jstok_skip_digits_ge [of "i + 1" json json_len]
  by (auto simp: jstok_number_int_def split: if_splits dest!: jstok_number_frac_ge)

lemma jstok_number_scan_gt:
  "jstok_number_scan strict json json_len pos = (r, e) \<Longrightarrow> 0 \<le> r \<Longrightarrow> pos < e"
  by (auto simp: jstok_number_scan_def split: if_splits dest!: jstok_number_int_gt)

lemma jstok_literal_loop_ge:
  "jstok_literal_loop json json_len pos lit i = (r, i') \<Longrightarrow> 0 \<le> r \<Longrightarrow> i' = i + int (length lit)"
proof (induction lit arbitrary: i)
  case Nil
  then show ?case by simp
next
  case (Cons l lit)
  from Cons.prems have "jstok_literal_loop json json_len pos lit (i + 1) = (r, i')"
    by (auto split: if_splits)
  from Cons.IH [OF this Cons.prems(2)] show ?case by simp
qed

lemma jstok_new_token_pos:
  "jstok_new_token p toks max_tokens ty s e = (r, p', toks') \<Longrightarrow> p_pos p' = p_pos p"
  by (auto simp: jstok_new_token_def jstok_set_error_def split: option.splits if_splits)

lemma jstok_accept_value_pos:
  "jstok_accept_value strict p toks = (r, p', toks') \<Longrightarrow> p_pos p' = p_pos p"
  by (auto simp: jstok_accept_value_def jstok_set_error_def frame_set_st_def
      split: option.splits if_splits)

lemma jstok_accept_key_pos:
  "jstok_accept_key p = (r, p') \<Longrightarrow> p_pos p' = p_pos p"
  by (auto simp: jstok_accept_key_def jstok_set_error_def frame_set_st_def
      split: option.splits if_splits)

lemma jstok_parse_string_token_advances:
  "jstok_parse_string_token p json json_len toks max_tokens = (r, p', toks') \<Longrightarrow> 0 \<le> r
     \<Longrightarrow> p_pos p < p_pos p'"
  by (auto simp: jstok_parse_string_token_def Let_def
      split: if_splits prod.splits dest!: jstok_string_loop_ge jstok_new_token_pos)

lemma jstok_primitive_literal_advances:
  "jstok_primitive_literal p json json_len toks max_tokens lit = (r, p', toks') \<Longrightarrow> 0 \<le> r
     \<Longrightarrow> lit \<noteq> [] \<Longrightarrow> p_pos p < p_pos p'"
  by (auto simp: jstok_primitive_literal_def jstok_parse_literal_def Let_def
      split: if_splits prod.splits dest!: jstok_literal_loop_ge jstok_new_token_pos)

lemma jstok_parse_primitive_token_advances:
  "jstok_parse_primitive_token strict p json json_len toks max_tokens = (r, p', toks')
     \<Longrightarrow> 0 \<le> r \<Longrightarrow> p_pos p < p_pos p'"
  by (auto simp: jstok_parse_primitive_token_def jstok_parse_number_span_def Let_def
      split: if_splits prod.splits
      dest!: jstok_primitive_literal_advances jstok_number_scan_gt jstok_new_token_pos)

lemma jstok_start_container_advances:
  "jstok_start_container strict p toks max_tokens ty = (r, p', toks') \<Longrightarrow> 0 \<le> r
     \<Longrightarrow> p_pos p < p_pos p'"
  by (auto simp: jstok_start_container_def jstok_push_def jstok_set_error_def
      split: if_splits prod.splits dest!: jstok_accept_value_pos jstok_new_token_pos)

lemma jstok_end_container_advances:
  "jstok_end_container p toks ty closer = (r, p', toks') \<Longrightarrow> 0 \<le> r
     \<Longrightarrow> closer \<noteq> CHR 0x00 \<Longrightarrow> p_pos p < p_pos p'"
  by (auto simp: jstok_end_container_def jstok_pop_def jstok_set_error_def Let_def
      split: if_splits option.splits)

lemma jstok_parse_step_advances:
  "jstok_parse_step strict json json_len max_tokens p toks = (None, p', toks')
     \<Longrightarrow> p_pos p < p_pos p'"
  unfolding jstok_parse_step_def Let_def jstok_return_if_negative_def
  by (auto simp: jstok_parse_colon_def jstok_parse_comma_def jstok_parse_key_def
      jstok_parse_string_value_def jstok_parse_primitive_value_def frame_set_st_def
      split: if_splits prod.splits option.splits
      dest!: jstok_start_container_advances jstok_end_container_advances
        jstok_parse_string_token_advances jstok_parse_primitive_token_advances
        jstok_accept_value_pos jstok_accept_key_pos)

text \<open>Hence the parse loop terminates.\<close>

termination jstok_parse_loop
proof (relation "measure (\<lambda>(strict, json, json_len, max_tokens, p, toks).
                   nat (json_len - p_pos p))")
  fix strict json json_len max_tokens p toks x y p' toks'
  assume "p_pos p < json_len"
    and "(x, y) = jstok_parse_step strict json json_len max_tokens p toks"
    and "x = None" and "(p', toks') = y"
  then have "p_pos p < p_pos p'"
    using jstok_parse_step_advances [of strict json json_len max_tokens p toks p' toks']
    by simp
  with \<open>p_pos p < json_len\<close>
  show "((strict, json, json_len, max_tokens, p', toks'),
         (strict, json, json_len, max_tokens, p, toks))
        \<in> measure (\<lambda>(strict, json, json_len, max_tokens, p, toks).
             nat (json_len - p_pos p))"
    by simp
qed simp

declare jstok_parse_loop.simps [simp del]

section \<open>Termination of the SSE scanner\<close>

lemma jstok_sse_scan_ge: "i \<le> jstok_sse_scan buf len i"
proof (induction buf len i rule: jstok_sse_scan.induct)
  case (1 buf len i)
  then show ?case
    by (subst jstok_sse_scan.simps) (auto split: if_splits)
qed

termination jstok_sse_next
proof (relation "measure (\<lambda>(buf, len, pos, out). nat (len - pos))")
  fix buf :: string and len pos :: int and out :: "(int \<times> int) option"
  assume "\<not> len \<le> jstok_sse_scan buf len pos"
  with jstok_sse_scan_ge [of pos buf len]
  show "((buf, len, jstok_sse_scan buf len pos + 1, out), (buf, len, pos, out))
        \<in> measure (\<lambda>(buf, len, pos, out). nat (len - pos))"
    by simp
  then show "((buf, len, jstok_sse_scan buf len pos + 1, out), (buf, len, pos, out))
        \<in> measure (\<lambda>(buf, len, pos, out). nat (len - pos))" .
qed simp

declare jstok_sse_next.simps [simp del]

section \<open>Unfolding the loop on concrete buffers\<close>

lemma jstok_parse_loop_run:
  "p_pos p < json_len \<Longrightarrow>
   jstok_parse_loop strict json json_len max_tokens p toks =
     (case jstok_parse_step strict json json_len max_tokens p toks of
        (Some r, p', toks') \<Rightarrow> (r, p', toks')
      | (None, p', toks') \<Rightarrow> jstok_parse_loop strict json json_len max_tokens p' toks')"
  by (subst jstok_parse_loop.simps) simp

lemma jstok_parse_loop_exit:
  "\<not> p_pos p < json_len \<Longrightarrow>
   jstok_parse_loop strict json json_len max_tokens p toks = jstok_parse_finish strict p toks"
  by (subst jstok_parse_loop.simps) simp

lemmas jstok_eval_defs =
  jstok_parse_def jstok_parse_loop_run jstok_parse_loop_exit jstok_parse_step_def
  jstok_parse_finish_def jstok_init_def jstok_set_error_def jstok_is_space_def
  jstok_is_digit_def jstok_is_delim_def jstok_is_hex_def
  jstok_return_if_negative_def jstok_start_container_def jstok_end_container_def
  jstok_close_token_def jstok_accept_value_def jstok_accept_key_def jstok_top_def
  jstok_pop_def jstok_push_def jstok_new_token_def jstok_inc_container_size_def
  frame_set_st_def jstok_parse_colon_def jstok_parse_comma_def jstok_parse_key_def
  jstok_parse_string_value_def jstok_parse_primitive_value_def jstok_rollback_value_def
  jstok_parse_primitive_token_def jstok_primitive_literal_def jstok_parse_literal_def
  jstok_parse_number_span_def jstok_number_scan_def jstok_number_int_def
  jstok_number_frac_def jstok_number_exp_def jstok_number_end_def
  jstok_parse_string_token_def JSTOK_MAX_DEPTH_def

section \<open>Scenario: a flat array\<close>

text \<open>
  Claim C7. A one-shot parse of the seven bytes \<open>[1,2,3]\<close> with a freshly initialised
  parser and an array of four tokens, whatever they held before, returns 4; token 0 is
  the array from 0 to 7 with size 3, and tokens 1 to 3 are the primitives at 1 to 2,
  3 to 4 and 5 to 6, each of size 0. This holds in the strict and in the permissive
  build. The parser ends at position 7 with no open frame.
\<close>

theorem jstok_parse_flat_array:
  "jstok_parse strict (Some (jstok_init p)) (Some ''[1,2,3]'') 7 (Some [a, b, c, d]) 4 =
     (4,
      Some (p\<lparr>p_pos := 7, p_toknext := 4, p_depth := 0, p_root_done := 1,
              p_error_pos := - 1, p_error_code := 0,
              p_stack := (p_stack p)(0 :=
                \<lparr>fr_type = JSTOK_ARRAY, fr_st = JSTOK_ST_ARR_COMMA_OR_END, fr_tok = 0\<rparr>)\<rparr>),
      Some [\<lparr>tk_type = JSTOK_ARRAY, tk_start = 0, tk_end = 7, tk_size = 3\<rparr>,
            \<lparr>tk_type = JSTOK_PRIMITIVE, tk_start = 1, tk_end = 2, tk_size = 0\<rparr>,
            \<lparr>tk_type = JSTOK_PRIMITIVE, tk_start = 3, tk_end = 4, tk_size = 0\<rparr>,
            \<lparr>tk_type = JSTOK_PRIMITIVE, tk_start = 5, tk_end = 6, tk_size = 0\<rparr>])"
  by (simp add: jstok_eval_defs jstok_skip_digits.simps Let_def numeral_2_eq_2 numeral_3_eq_3)

section \<open>Argument validation\<close>

text \<open>
  Claim C9. Called with a null parser, a null buffer or a negative length, \<open>jstok_parse\<close>
  returns \<open>JSTOK_ERROR_INVAL\<close> (-2) and leaves the token array as it was. A parser that
  is not null comes back with \<open>error_code = -2\<close> and \<open>error_pos = 0\<close> and every other
  field (position, token count, depth, root flag, frames) unchanged.
\<close>

theorem jstok_parse_invalid_arguments:
  assumes "p = None \<or> json = None \<or> json_len < 0"
  shows "jstok_parse strict p json json_len tokens max_tokens =
           (JSTOK_ERROR_INVAL,
            map_option (\<lambda>pp. pp\<lparr>p_error_code := JSTOK_ERROR_INVAL, p_error_pos := 0\<rparr>) p,
            tokens)"
  using assms
  by (auto simp: jstok_parse_def jstok_set_error_def split: option.splits)

theorem jstok_parse_invalid_arguments_witness:
  "jstok_parse True (Some stale_parser) (Some ''[1]'') (- 1) (Some [stale_token]) 1 =
     (JSTOK_ERROR_INVAL,
      Some (stale_parser\<lparr>p_error_code := JSTOK_ERROR_INVAL, p_error_pos := 0\<rparr>),
      Some [stale_token])
   \<and> jstok_parse True (Some stale_parser) None 3 (Some [stale_token]) 1 =
     (JSTOK_ERROR_INVAL,
      Some (stale_parser\<lparr>p_error_code := JSTOK_ERROR_INVAL, p_error_pos := 0\<rparr>),
      Some [stale_token])
   \<and> jstok_parse True None (Some ''[1]'') 3 (Some [stale_token]) 1 =
     (JSTOK_ERROR_INVAL, None, Some [stale_token])"
  using jstok_parse_invalid_arguments
          [of "Some stale_parser" "Some ''[1]''" "- 1" True "Some [stale_token]" 1]
        jstok_parse_invalid_arguments
          [of "Some stale_parser" None 3 True "Some [stale_token]" 1]
        jstok_parse_invalid_arguments
          [of None "Some ''[1]''" 3 True "Some [stale_token]" 1]
  by simp

section \<open>The SSE scanner and positions beyond the buffer\<close>

text \<open>
  Claim C8 says that a position beyond the length is clamped to the length. The function
  has no such step: for every buffer and every position beyond the length it returns 0
  (no complete line) and leaves \<open>*pos\<close> where it was. With \<open>*pos = 131\<close> on the eight bytes
  \<open>data: x\n\<close> it returns 0 and \<open>*pos\<close> is still 131, not 8.
\<close>

theorem jstok_sse_next_not_clamped:
  "jstok_sse_next buf len (len + 1 + int k) out = (0, len + 1 + int k, out)
   \<and> jstok_sse_next (''data: x'' @ [CHR 0x0A]) 8 131 (Some (0, 0)) = (0, 131, Some (0, 0))"
  by (simp add: jstok_sse_next.simps jstok_sse_scan.simps)

section \<open>Result bounds of the subtree skip\<close>

lemma jstok_skip_loop_bounds:
  "idx \<le> count \<Longrightarrow>
   idx \<le> jstok_skip_loop toks count rem idx \<and> jstok_skip_loop toks count rem idx \<le> count"
proof (induction toks count rem idx rule: jstok_skip_loop.induct)
  case (1 toks count idx)
  then show ?case by simp
next
  case (2 toks count r rem idx)
  note unf = jstok_skip_loop.simps(2) [of toks count r rem idx]
  let ?t = "tk_type (toks ! nat idx)"
  consider (pop) "r = 0"
    | (out) "r \<noteq> 0" "idx \<ge> count"
    | (leaf) "r \<noteq> 0" "\<not> idx \<ge> count" "?t = JSTOK_STRING \<or> ?t = JSTOK_PRIMITIVE"
    | (deep) "r \<noteq> 0" "\<not> idx \<ge> count" "\<not> (?t = JSTOK_STRING \<or> ?t = JSTOK_PRIMITIVE)"
        "int (length (r # rem)) \<ge> JSTOK_MAX_DEPTH"
    | (arr) "r \<noteq> 0" "\<not> idx \<ge> count" "\<not> (?t = JSTOK_STRING \<or> ?t = JSTOK_PRIMITIVE)"
        "\<not> int (length (r # rem)) \<ge> JSTOK_MAX_DEPTH" "?t = JSTOK_ARRAY"
    | (obj) "r \<noteq> 0" "\<not> idx \<ge> count" "\<not> (?t = JSTOK_STRING \<or> ?t = JSTOK_PRIMITIVE)"
        "\<not> int (length (r # rem)) \<ge> JSTOK_MAX_DEPTH" "?t \<noteq> JSTOK_ARRAY" "?t = JSTOK_OBJECT"
    | (other) "r \<noteq> 0" "\<not> idx \<ge> count" "\<not> (?t = JSTOK_STRING \<or> ?t = JSTOK_PRIMITIVE)"
        "\<not> int (length (r # rem)) \<ge> JSTOK_MAX_DEPTH" "?t \<noteq> JSTOK_ARRAY" "?t \<noteq> JSTOK_OBJECT"
    by blast
  then show ?case
  proof cases
    case pop
    from "2.IH"(1) [OF pop "2.prems"] pop show ?thesis
      unfolding unf by simp
  next
    case out
    with "2.prems" show ?thesis
      unfolding unf by simp
  next
    case leaf
    then have "idx + 1 \<le> count" by simp
    from "2.IH"(2) [OF leaf this] leaf show ?thesis
      unfolding unf by simp
  next
    case deep
    with "2.prems" show ?thesis
      unfolding unf by (simp del: length_Cons)
  next
    case arr
    then have "idx + 1 \<le> count" by simp
    from "2.IH"(3) [OF arr this] arr show ?thesis
      unfolding unf by (simp del: length_Cons)
  next
    case obj
    then have "idx + 1 \<le> count" by simp
    from "2.IH"(4) [OF obj this] obj show ?thesis
      unfolding unf by (simp del: length_Cons)
  next
    case other
    then have "idx + 1 \<le> count" by simp
    from "2.IH"(5) [OF other this] other show ?thesis
      unfolding unf by (simp del: length_Cons)
  qed
qed

text \<open>
  Claim C10. For every token array and every \<open>count \<ge> 0\<close>: \<open>jstok_skip\<close> returns \<open>count\<close>
  when the array is null or the index \<open>i\<close> is negative or not below \<open>count\<close>; and for
  \<open>0 \<le> i < count\<close> its result lies between \<open>i + 1\<close> and \<open>count\<close>, whatever sizes and
  types the tokens carry. The loop is total (its termination is proved with the
  definition).
\<close>

theorem jstok_skip_bounds:
  assumes "0 \<le> count"
  shows "(toks = None \<or> i < 0 \<or> count \<le> i \<longrightarrow> jstok_skip toks count i = count)
       \<and> (toks \<noteq> None \<and> 0 \<le> i \<and> i < count \<longrightarrow>
            i + 1 \<le> jstok_skip toks count i \<and> jstok_skip toks count i \<le> count)"
proof (intro conjI impI)
  assume "toks = None \<or> i < 0 \<or> count \<le> i"
  then show "jstok_skip toks count i = count"
    by (auto simp: jstok_skip_def split: option.splits)
next
  assume a: "toks \<noteq> None \<and> 0 \<le> i \<and> i < count"
  then obtain ts where ts: "toks = Some ts" by auto
  from a have le: "i + 1 \<le> count" by simp
  show "i + 1 \<le> jstok_skip toks count i"
    using a le jstok_skip_loop_bounds [OF le, of ts]
    by (auto simp: jstok_skip_def ts)
  show "jstok_skip toks count i \<le> count"
    using a le jstok_skip_loop_bounds [OF le, of ts]
    by (auto simp: jstok_skip_def ts)
qed

theorem jstok_skip_bounds_witness:
  "(0::int) \<le> 4
   \<and> jstok_skip (Some [\<lparr>tk_type = JSTOK_ARRAY, tk_start = 0, tk_end = 7, tk_size = 2\<rparr>,
                        \<lparr>tk_type = JSTOK_PRIMITIVE, tk_start = 1, tk_end = 2, tk_size = 0\<rparr>,
                        \<lparr>tk_type = JSTOK_ARRAY, tk_start = 3, tk_end = 6, tk_size = 1\<rparr>,
                        \<lparr>tk_type = JSTOK_PRIMITIVE, tk_start = 4, tk_end = 5, tk_size = 0\<rparr>]) 4 7 = 4
   \<and> 2 + 1 \<le> jstok_skip (Some [\<lparr>tk_type = JSTOK_ARRAY, tk_start = 0, tk_end = 7, tk_size = 2\<rparr>,
                        \<lparr>tk_type = JSTOK_PRIMITIVE, tk_start = 1, tk_end = 2, tk_size = 0\<rparr>,
                        \<lparr>tk_type = JSTOK_ARRAY, tk_start = 3, tk_end = 6, tk_size = 1\<rparr>,
                        \<lparr>tk_type = JSTOK_PRIMITIVE, tk_start = 4, tk_end = 5, tk_size = 0\<rparr>]) 4 2
   \<and> jstok_skip (Some [\<lparr>tk_type = JSTOK_ARRAY, tk_start = 0, tk_end = 7, tk_size = 2\<rparr>,
                        \<lparr>tk_type = JSTOK_PRIMITIVE, tk_start = 1, tk_end = 2, tk_size = 0\<rparr>,
                        \<lparr>tk_type = JSTOK_ARRAY, tk_start = 3, tk_end = 6, tk_size = 1\<rparr>,
                        \<lparr>tk_type = JSTOK_PRIMITIVE, tk_start = 4, tk_end = 5, tk_size = 0\<rparr>]) 4 2 \<le> 4"
  using jstok_skip_bounds [of 4
          "Some [\<lparr>tk_type = JSTOK_ARRAY, tk_start = 0, tk_end = 7, tk_size = 2\<rparr>,
                 \<lparr>tk_type = JSTOK_PRIMITIVE, tk_start = 1, tk_end = 2, tk_size = 0\<rparr>,
                 \<lparr>tk_type = JSTOK_ARRAY, tk_start = 3, tk_end = 6, tk_size = 1\<rparr>,
                 \<lparr>tk_type = JSTOK_PRIMITIVE, tk_start = 4, tk_end = 5, tk_size = 0\<rparr>]" 7]
        jstok_skip_bounds [of 4
          "Some [\<lparr>tk_type = JSTOK_ARRAY, tk_start = 0, tk_end = 7, tk_size = 2\<rparr>,
                 \<lparr>tk_type = JSTOK_PRIMITIVE, tk_start = 1, tk_end = 2, tk_size = 0\<rparr>,
                 \<lparr>tk_type = JSTOK_ARRAY, tk_start = 3, tk_end = 6, tk_size = 1\<rparr>,
                 \<lparr>tk_type = JSTOK_PRIMITIVE, tk_start = 4, tk_end = 5, tk_size = 0\<rparr>]" 2]
  by simp

section \<open>Empty and whitespace-only input\<close>

lemma jstok_parse_step_space:
  "jstok_is_space (json ! nat (p_pos p)) \<Longrightarrow>
   jstok_parse_step strict json json_len max_tokens p toks = (None, p\<lparr>p_pos := p_pos p + 1\<rparr>, toks)"
  by (simp add: jstok_parse_step_def)

lemma jstok_parse_loop_whitespace:
  assumes "\<forall>i. p_pos p \<le> i \<and> i < json_len \<longrightarrow> jstok_is_space (json ! nat i)"
    and "p_pos p \<le> json_len"
  shows "jstok_parse_loop strict json json_len max_tokens p toks =
           jstok_parse_finish strict (p\<lparr>p_pos := json_len\<rparr>) toks"
  using assms
proof (induction "nat (json_len - p_pos p)" arbitrary: p)
  case 0
  then have "p_pos p = json_len" by simp
  then have "p\<lparr>p_pos := json_len\<rparr> = p" by simp
  with 0 show ?case by (simp add: jstok_parse_loop_exit)
next
  case (Suc n)
  then have lt: "p_pos p < json_len" by simp
  with Suc.prems have sp: "jstok_is_space (json ! nat (p_pos p))" by simp
  let ?p = "p\<lparr>p_pos := p_pos p + 1\<rparr>"
  have "jstok_parse_loop strict json json_len max_tokens ?p toks =
          jstok_parse_finish strict (?p\<lparr>p_pos := json_len\<rparr>) toks"
  proof (rule Suc.hyps(1))
    show "n = nat (json_len - p_pos ?p)" using Suc.hyps(2) by simp
    show "\<forall>i. p_pos ?p \<le> i \<and> i < json_len \<longrightarrow> jstok_is_space (json ! nat i)"
      using Suc.prems(1) by simp
    show "p_pos ?p \<le> json_len" using lt by simp
  qed
  with lt sp show ?case
    by (simp add: jstok_parse_loop_run jstok_parse_step_space)
qed

text \<open>
  Claim C5 says that empty or whitespace-only input gives \<open>JSTOK_ERROR_PART\<close> in the
  strict and in the permissive build alike. The check \<open>depth == 0 && !root_done\<close> after
  the loop stands inside \<open>#ifdef JSTOK_STRICT\<close>, so the permissive build falls through
  to \<open>return p->toknext\<close>: on the empty buffer it returns 0, not \<open>JSTOK_ERROR_PART\<close>.
\<close>

theorem jstok_parse_empty_permissive:
  "fst (jstok_parse False (Some (jstok_init stale_parser)) (Some []) 0 None 0) = 0
   \<and> fst (jstok_parse False (Some (jstok_init stale_parser)) (Some []) 0 None 0)
       \<noteq> JSTOK_ERROR_PART"
  by (simp add: jstok_eval_defs)

text \<open>
  Claim C5 as amended. On a freshly initialised parser, a buffer of \<open>json_len \<ge> 0\<close> bytes
  that are all whitespace (none at all for \<open>json_len = 0\<close>) makes the strict build return
  \<open>JSTOK_ERROR_PART\<close> with \<open>error_pos = json_len\<close>, and the permissive build return 0,
  the count of tokens; in both the position ends at \<open>json_len\<close>, no token is written and
  no frame is opened.
\<close>

theorem jstok_parse_whitespace_only:
  assumes "0 \<le> json_len"
    and "\<forall>i. 0 \<le> i \<and> i < json_len \<longrightarrow> jstok_is_space (json ! nat i)"
  shows "jstok_parse strict (Some (jstok_init p)) (Some json) json_len tokens max_tokens =
           (if strict then JSTOK_ERROR_PART else 0,
            Some (p\<lparr>p_pos := json_len, p_toknext := 0, p_depth := 0, p_root_done := 0,
                    p_error_pos := (if strict then json_len else - 1),
                    p_error_code := (if strict then JSTOK_ERROR_PART else 0)\<rparr>),
            tokens)"
proof -
  let ?p = "(jstok_init p)\<lparr>p_error_pos := - 1, p_error_code := 0\<rparr>"
  have "jstok_parse_loop strict json json_len max_tokens ?p tokens =
          jstok_parse_finish strict (?p\<lparr>p_pos := json_len\<rparr>) tokens"
    by (rule jstok_parse_loop_whitespace) (use assms in \<open>simp_all add: jstok_init_def\<close>)
  with assms(1) show ?thesis
    by (simp add: jstok_parse_def jstok_parse_finish_def jstok_init_def jstok_set_error_def)
qed

theorem jstok_parse_whitespace_only_witness:
  "jstok_parse True (Some (jstok_init stale_parser)) (Some [CHR '' '', CHR 0x0A]) 2 None 0 =
     (JSTOK_ERROR_PART,
      Some (stale_parser\<lparr>p_pos := 2, p_toknext := 0, p_depth := 0, p_root_done := 0,
              p_error_pos := 2, p_error_code := JSTOK_ERROR_PART\<rparr>), None)
   \<and> jstok_parse False (Some (jstok_init stale_parser)) (Some [CHR '' '', CHR 0x0A]) 2 None 0 =
     (0,
      Some (stale_parser\<lparr>p_pos := 2, p_toknext := 0, p_depth := 0, p_root_done := 0,
              p_error_pos := - 1, p_error_code := 0\<rparr>), None)"
proof -
  have ws: "\<forall>i. 0 \<le> i \<and> i < (2::int) \<longrightarrow> jstok_is_space ([CHR '' '', CHR 0x0A] ! nat i)"
  proof (intro allI impI)
    fix i :: int
    assume "0 \<le> i \<and> i < 2"
    then have "i = 0 \<or> i = 1" by auto
    then show "jstok_is_space ([CHR '' '', CHR 0x0A] ! nat i)"
      by (auto simp: jstok_is_space_def)
  qed
  show ?thesis
    using jstok_parse_whitespace_only [of 2 "[CHR '' '', CHR 0x0A]" True stale_parser None 0, OF _ ws]
      jstok_parse_whitespace_only [of 2 "[CHR '' '', CHR 0x0A]" False stale_parser None 0, OF _ ws]
    by simp
qed

section \<open>The literals true, false and null\<close>

lemma jstok_literal_loop_match:
  "\<forall>j<length lit. pos + i + int j < json_len \<and> json ! nat (pos + i + int j) = lit ! j \<Longrightarrow>
   jstok_literal_loop json json_len pos lit i = (0, i + int (length lit))"
proof (induction lit arbitrary: i)
  case Nil
  then show ?case by simp
next
  case (Cons l lit)
  from Cons.prems have here: "pos + i < json_len" "json ! nat (pos + i) = l"
    by force+
  have "\<forall>j<length lit. pos + (i + 1) + int j < json_len
          \<and> json ! nat (pos + (i + 1) + int j) = lit ! j"
  proof (intro allI impI)
    fix j assume "j < length lit"
    then have "Suc j < length (l # lit)" by simp
    from Cons.prems [rule_format, OF this]
    show "pos + (i + 1) + int j < json_len \<and> json ! nat (pos + (i + 1) + int j) = lit ! j"
      by (simp add: algebra_simps)
  qed
  from Cons.IH [OF this] here show ?case by simp
qed

lemma jstok_literal_loop_stop:
  "k < length lit \<Longrightarrow>
   \<forall>j<k. pos + i + int j < json_len \<and> json ! nat (pos + i + int j) = lit ! j \<Longrightarrow>
   jstok_literal_loop json json_len pos lit i =
     (if pos + i + int k \<ge> json_len then (JSTOK_ERROR_PART, pos + i + int k)
      else if json ! nat (pos + i + int k) \<noteq> lit ! k then (JSTOK_ERROR_INVAL, pos + i + int k)
      else jstok_literal_loop json json_len pos (drop (Suc k) lit) (i + int k + 1))"
proof (induction lit arbitrary: i k)
  case Nil
  then show ?case by simp
next
  case (Cons l lit)
  show ?case
  proof (cases k)
    case 0
    then show ?thesis by simp
  next
    case (Suc k')
    from Cons.prems Suc have here: "pos + i < json_len" "json ! nat (pos + i) = l"
      by force+
    have k': "k' < length lit" using Cons.prems(1) Suc by simp
    have "\<forall>j<k'. pos + (i + 1) + int j < json_len
            \<and> json ! nat (pos + (i + 1) + int j) = lit ! j"
    proof (intro allI impI)
      fix j assume "j < k'"
      then have "Suc j < k" using Suc by simp
      from Cons.prems(2) [rule_format, OF this]
      show "pos + (i + 1) + int j < json_len \<and> json ! nat (pos + (i + 1) + int j) = lit ! j"
        by (simp add: algebra_simps)
    qed
    from Cons.IH [OF k' this] here Suc show ?thesis
      by (simp add: algebra_simps)
  qed
qed

lemma jstok_parse_literal_cases:
  assumes "k \<le> length lit"
    and "\<forall>j<k. p_pos p + int j < json_len \<and> json ! nat (p_pos p + int j) = lit ! j"
  shows "(k < length lit \<and> p_pos p + int k < json_len \<and> json ! nat (p_pos p + int k) \<noteq> lit ! k
            \<longrightarrow> jstok_parse_literal p json json_len lit =
                  (JSTOK_ERROR_INVAL, jstok_set_error p JSTOK_ERROR_INVAL (p_pos p + int k)))
       \<and> (k < length lit \<and> p_pos p + int k \<ge> json_len
            \<longrightarrow> jstok_parse_literal p json json_len lit =
                  (JSTOK_ERROR_PART, jstok_set_error p JSTOK_ERROR_PART (p_pos p + int k)))
       \<and> (k = length lit \<and> p_pos p + int k < json_len
             \<and> \<not> jstok_is_delim (json ! nat (p_pos p + int k))
            \<longrightarrow> jstok_parse_literal p json json_len lit =
                  (JSTOK_ERROR_INVAL, jstok_set_error p JSTOK_ERROR_INVAL (p_pos p + int k)))
       \<and> (k = length lit \<and> (p_pos p + int k \<ge> json_len
                              \<or> jstok_is_delim (json ! nat (p_pos p + int k)))
            \<longrightarrow> jstok_parse_literal p json json_len lit = (int k, p))"
proof (cases "k < length lit")
  case True
  from jstok_literal_loop_stop [of k lit "p_pos p" 0 json_len json] True assms(2)
  show ?thesis
    by (auto simp: jstok_parse_literal_def)
next
  case False
  with assms(1) have k: "k = length lit" by simp
  from jstok_literal_loop_match [of lit "p_pos p" 0 json_len json] assms(2) k
  show ?thesis
    by (auto simp: jstok_parse_literal_def)
qed

text \<open>
  Claim C4 says that a literal immediately followed by the end of the buffer gives
  \<open>JSTOK_ERROR_PART\<close> and is not committed. \<open>jstok_parse_literal\<close> tests the delimiter only
  under \<open>p->pos + i < json_len\<close> (its comment: "Next must be delimiter or EOF"), so a
  complete literal at the end of the buffer is accepted: the four bytes \<open>true\<close> parse to
  one primitive token from 0 to 4 and \<open>jstok_parse\<close> returns 1.
\<close>

theorem jstok_parse_literal_at_end_of_buffer:
  "jstok_parse True (Some (jstok_init stale_parser)) (Some ''true'') 4 (Some [stale_token]) 1 =
     (1,
      Some (stale_parser\<lparr>p_pos := 4, p_toknext := 1, p_depth := 0, p_root_done := 1,
              p_error_pos := - 1, p_error_code := 0\<rparr>),
      Some [\<lparr>tk_type = JSTOK_PRIMITIVE, tk_start = 0, tk_end = 4, tk_size = 0\<rparr>])"
  by (simp add: jstok_eval_defs)

text \<open>
  Claim C4 as amended. Let the recognizer for one of \<open>true\<close>, \<open>false\<close>, \<open>null\<close> be
  entered at a byte equal to the literal's first, and let the first \<open>k\<close> bytes of the
  literal be present in the buffer and equal to it. Then: if byte \<open>k\<close> of the literal is
  in the buffer and differs, the result is \<open>JSTOK_ERROR_INVAL\<close> with the error at that
  byte; if the buffer ends before byte \<open>k\<close> of the literal, the result is
  \<open>JSTOK_ERROR_PART\<close> and nothing is committed; if the whole literal matched and a byte
  that is no delimiter follows, the result is \<open>JSTOK_ERROR_INVAL\<close> at that byte; and if
  the whole literal matched and is followed by a delimiter or by the end of the buffer,
  the literal is committed as a primitive token over exactly its bytes.
\<close>

theorem jstok_literal_recognizer:
  assumes "lit = ''true'' \<or> lit = ''false'' \<or> lit = ''null''"
    and "p_pos p < json_len" and "json ! nat (p_pos p) = hd lit"
    and "k \<le> length lit"
    and "\<forall>j<k. p_pos p + int j < json_len \<and> json ! nat (p_pos p + int j) = lit ! j"
  shows "(k < length lit \<and> p_pos p + int k < json_len \<and> json ! nat (p_pos p + int k) \<noteq> lit ! k
            \<longrightarrow> jstok_parse_primitive_token strict p json json_len toks max_tokens =
                  (JSTOK_ERROR_INVAL, jstok_set_error p JSTOK_ERROR_INVAL (p_pos p + int k), toks))
       \<and> (k < length lit \<and> p_pos p + int k \<ge> json_len
            \<longrightarrow> jstok_parse_primitive_token strict p json json_len toks max_tokens =
                  (JSTOK_ERROR_PART, jstok_set_error p JSTOK_ERROR_PART (p_pos p + int k), toks))
       \<and> (k = length lit \<and> p_pos p + int k < json_len
             \<and> \<not> jstok_is_delim (json ! nat (p_pos p + int k))
            \<longrightarrow> jstok_parse_primitive_token strict p json json_len toks max_tokens =
                  (JSTOK_ERROR_INVAL, jstok_set_error p JSTOK_ERROR_INVAL (p_pos p + int k), toks))
       \<and> (k = length lit \<and> (p_pos p + int k \<ge> json_len
                              \<or> jstok_is_delim (json ! nat (p_pos p + int k)))
            \<longrightarrow> jstok_parse_primitive_token strict p json json_len toks max_tokens =
                  jstok_new_token (p\<lparr>p_pos := p_pos p + int k\<rparr>) toks max_tokens
                    JSTOK_PRIMITIVE (p_pos p) (p_pos p + int k))"
proof -
  have prim: "jstok_parse_primitive_token strict p json json_len toks max_tokens =
                jstok_primitive_literal p json json_len toks max_tokens lit"
    using assms(1-3) by (auto simp: jstok_parse_primitive_token_def)
  from jstok_parse_literal_cases [OF assms(4,5)] show ?thesis
    unfolding prim jstok_primitive_literal_def Let_def
    by (auto simp: jstok_set_error_def)
qed

theorem jstok_literal_recognizer_witness:
  "jstok_parse_primitive_token True (jstok_init stale_parser) ''null'' 4 (Some [stale_token]) 1 =
     jstok_new_token ((jstok_init stale_parser)\<lparr>p_pos := 4\<rparr>) (Some [stale_token]) 1
       JSTOK_PRIMITIVE 0 4
   \<and> jstok_parse_primitive_token True (jstok_init stale_parser) ''fal'' 3 (Some [stale_token]) 1 =
       (JSTOK_ERROR_PART, jstok_set_error (jstok_init stale_parser) JSTOK_ERROR_PART 3,
        Some [stale_token])
   \<and> jstok_parse_primitive_token True (jstok_init stale_parser) ''trux'' 4 (Some [stale_token]) 1 =
       (JSTOK_ERROR_INVAL, jstok_set_error (jstok_init stale_parser) JSTOK_ERROR_INVAL 3,
        Some [stale_token])"
proof -
  have pos: "p_pos (jstok_init stale_parser) = 0"
    by (simp add: jstok_init_def)
  have a: "\<forall>j<4. p_pos (jstok_init stale_parser) + int j < 4
             \<and> ''null'' ! nat (p_pos (jstok_init stale_parser) + int j) = ''null'' ! j"
    by (simp add: pos)
  have b: "\<forall>j<3. p_pos (jstok_init stale_parser) + int j < 3
             \<and> ''fal'' ! nat (p_pos (jstok_init stale_parser) + int j) = ''false'' ! j"
  proof (intro allI impI)
    fix j :: nat assume "j < 3"
    then have "j = 0 \<or> j = 1 \<or> j = 2" by auto
    then show "p_pos (jstok_init stale_parser) + int j < 3
             \<and> ''fal'' ! nat (p_pos (jstok_init stale_parser) + int j) = ''false'' ! j"
      by (auto simp: pos)
  qed
  have c: "\<forall>j<3. p_pos (jstok_init stale_parser) + int j < 4
             \<and> ''trux'' ! nat (p_pos (jstok_init stale_parser) + int j) = ''true'' ! j"
  proof (intro allI impI)
    fix j :: nat assume "j < 3"
    then have "j = 0 \<or> j = 1 \<or> j = 2" by auto
    then show "p_pos (jstok_init stale_parser) + int j < 4
             \<and> ''trux'' ! nat (p_pos (jstok_init stale_parser) + int j) = ''true'' ! j"
      by (auto simp: pos)
  qed
  show ?thesis
    using jstok_literal_recognizer [of "''null''" "jstok_init stale_parser" 4 "''null''" 4
            True "Some [stale_token]" 1, OF _ _ _ _ a]
          jstok_literal_recognizer [of "''false''" "jstok_init stale_parser" 3 "''fal''" 3
            True "Some [stale_token]" 1, OF _ _ _ _ b]
          jstok_literal_recognizer [of "''true''" "jstok_init stale_parser" 4 "''trux''" 3
            True "Some [stale_token]" 1, OF _ _ _ _ c]
    by (simp add: pos)
qed

section \<open>A string cut off by the end of the buffer\<close>

lemma jstok_string_hex_inside:
  "jstok_string_hex json json_len pos n = (0, pos') \<Longrightarrow> 0 < n \<Longrightarrow> pos' < json_len"
proof (induction n arbitrary: pos)
  case 0
  then show ?case by simp
next
  case (Suc n)
  from Suc.prems have inside: "pos + 1 < json_len"
    and rest: "jstok_string_hex json json_len (pos + 1) n = (0, pos')"
    by (simp_all split: if_splits)
  show ?case
  proof (cases n)
    case 0
    with rest inside show ?thesis by simp
  next
    case (Suc m)
    with Suc.IH [OF rest] show ?thesis by simp
  qed
qed

lemma jstok_string_hex_part:
  "jstok_string_hex json json_len pos n = (JSTOK_ERROR_PART, at) \<Longrightarrow> pos < json_len
     \<Longrightarrow> at = json_len"
proof (induction n arbitrary: pos)
  case 0
  then show ?case by simp
next
  case (Suc n)
  show ?case
  proof (cases "pos + 1 \<ge> json_len")
    case True
    with Suc.prems show ?thesis by simp
  next
    case False
    with Suc.prems have "jstok_string_hex json json_len (pos + 1) n = (JSTOK_ERROR_PART, at)"
      by (simp split: if_splits)
    from Suc.IH [OF this] False show ?thesis by simp
  qed
qed

lemma jstok_string_loop_cases [consumes 1, case_names ctl quote esc_end esc_simple esc_hex
    esc_hex_fail esc_bad plain]:
  assumes "pos < json_len"
  obtains
    (ctl) "(of_char (json ! nat pos) :: nat) < 0x20"
      "jstok_string_loop json json_len pos = (JSTOK_ERROR_INVAL, pos)"
  | (quote) "json ! nat pos = CHR 0x22"
      "jstok_string_loop json json_len pos = (0, pos)"
  | (esc_end) "json ! nat pos = CHR 0x5C" "pos + 1 \<ge> json_len"
      "jstok_string_loop json json_len pos = (JSTOK_ERROR_PART, pos + 1)"
  | (esc_simple) "\<not> (of_char (json ! nat pos) :: nat) < 0x20" "json ! nat pos \<noteq> CHR 0x22"
      "json ! nat pos = CHR 0x5C" "\<not> pos + 1 \<ge> json_len"
      "json ! nat (pos + 1) = CHR 0x22 \<or> json ! nat (pos + 1) = CHR 0x5C
        \<or> json ! nat (pos + 1) = CHR ''/'' \<or> json ! nat (pos + 1) = CHR ''b''
        \<or> json ! nat (pos + 1) = CHR ''f'' \<or> json ! nat (pos + 1) = CHR ''n''
        \<or> json ! nat (pos + 1) = CHR ''r'' \<or> json ! nat (pos + 1) = CHR ''t''"
      "jstok_string_loop json json_len pos = jstok_string_loop json json_len (pos + 2)"
  | (esc_hex) "\<not> (of_char (json ! nat pos) :: nat) < 0x20" "json ! nat pos \<noteq> CHR 0x22"
      "json ! nat pos = CHR 0x5C" "\<not> pos + 1 \<ge> json_len"
      "\<not> (json ! nat (pos + 1) = CHR 0x22 \<or> json ! nat (pos + 1) = CHR 0x5C
        \<or> json ! nat (pos + 1) = CHR ''/'' \<or> json ! nat (pos + 1) = CHR ''b''
        \<or> json ! nat (pos + 1) = CHR ''f'' \<or> json ! nat (pos + 1) = CHR ''n''
        \<or> json ! nat (pos + 1) = CHR ''r'' \<or> json ! nat (pos + 1) = CHR ''t'')"
      "json ! nat (pos + 1) = CHR ''u''"
      "fst (jstok_string_hex json json_len (pos + 1) 4) = 0"
      "jstok_string_loop json json_len pos =
         jstok_string_loop json json_len (snd (jstok_string_hex json json_len (pos + 1) 4) + 1)"
  | (esc_hex_fail) "json ! nat pos = CHR 0x5C" "\<not> pos + 1 \<ge> json_len"
      "json ! nat (pos + 1) = CHR ''u''"
      "fst (jstok_string_hex json json_len (pos + 1) 4) \<noteq> 0"
      "jstok_string_loop json json_len pos = jstok_string_hex json json_len (pos + 1) 4"
  | (esc_bad) "json ! nat pos = CHR 0x5C" "\<not> pos + 1 \<ge> json_len"
      "jstok_string_loop json json_len pos = (JSTOK_ERROR_INVAL, pos + 1)"
  | (plain) "\<not> (of_char (json ! nat pos) :: nat) < 0x20" "json ! nat pos \<noteq> CHR 0x22"
      "json ! nat pos \<noteq> CHR 0x5C"
      "jstok_string_loop json json_len pos = jstok_string_loop json json_len (pos + 1)"
proof -
  note unf = jstok_string_loop.simps [of json json_len pos]
  let ?c = "json ! nat pos" and ?d = "json ! nat (pos + 1)"
  let ?simple = "?d = CHR 0x22 \<or> ?d = CHR 0x5C \<or> ?d = CHR ''/'' \<or> ?d = CHR ''b''
        \<or> ?d = CHR ''f'' \<or> ?d = CHR ''n'' \<or> ?d = CHR ''r'' \<or> ?d = CHR ''t''"
  consider (a) "(of_char ?c :: nat) < 0x20"
    | (b) "\<not> (of_char ?c :: nat) < 0x20" "?c = CHR 0x22"
    | (c) "\<not> (of_char ?c :: nat) < 0x20" "?c \<noteq> CHR 0x22" "?c = CHR 0x5C" "pos + 1 \<ge> json_len"
    | (d) "\<not> (of_char ?c :: nat) < 0x20" "?c \<noteq> CHR 0x22" "?c = CHR 0x5C"
        "\<not> pos + 1 \<ge> json_len" "?simple"
    | (e) "\<not> (of_char ?c :: nat) < 0x20" "?c \<noteq> CHR 0x22" "?c = CHR 0x5C"
        "\<not> pos + 1 \<ge> json_len" "\<not> ?simple" "?d = CHR ''u''"
        "fst (jstok_string_hex json json_len (pos + 1) 4) = 0"
    | (f) "\<not> (of_char ?c :: nat) < 0x20" "?c \<noteq> CHR 0x22" "?c = CHR 0x5C"
        "\<not> pos + 1 \<ge> json_len" "\<not> ?simple" "?d = CHR ''u''"
        "fst (jstok_string_hex json json_len (pos + 1) 4) \<noteq> 0"
    | (g) "\<not> (of_char ?c :: nat) < 0x20" "?c \<noteq> CHR 0x22" "?c = CHR 0x5C"
        "\<not> pos + 1 \<ge> json_len" "\<not> ?simple" "?d \<noteq> CHR ''u''"
    | (h) "\<not> (of_char ?c :: nat) < 0x20" "?c \<noteq> CHR 0x22" "?c \<noteq> CHR 0x5C"
    by blast
  then show thesis
  proof cases
    case a
    with assms have "jstok_string_loop json json_len pos = (JSTOK_ERROR_INVAL, pos)"
      unfolding unf by simp
    with a show thesis by (rule ctl)
  next
    case b
    with assms have "jstok_string_loop json json_len pos = (0, pos)"
      unfolding unf by simp
    with b(2) show thesis by (rule quote)
  next
    case c
    with assms have "jstok_string_loop json json_len pos = (JSTOK_ERROR_PART, pos + 1)"
      unfolding unf by simp
    with c(3,4) show thesis by (rule esc_end)
  next
    case d
    with assms have "jstok_string_loop json json_len pos = jstok_string_loop json json_len (pos + 2)"
      unfolding unf by simp
    with d show thesis by (rule esc_simple)
  next
    case e
    with assms have "jstok_string_loop json json_len pos =
        jstok_string_loop json json_len (snd (jstok_string_hex json json_len (pos + 1) 4) + 1)"
      unfolding unf by simp
    with e show thesis by (rule esc_hex)
  next
    case f
    with assms have "jstok_string_loop json json_len pos =
        jstok_string_hex json json_len (pos + 1) 4"
      unfolding unf by simp
    with f(3,4,6,7) show thesis by (rule esc_hex_fail)
  next
    case g
    with assms have "jstok_string_loop json json_len pos = (JSTOK_ERROR_INVAL, pos + 1)"
      unfolding unf by simp
    with g(3,4) show thesis by (rule esc_bad)
  next
    case h
    with assms have "jstok_string_loop json json_len pos = jstok_string_loop json json_len (pos + 1)"
      unfolding unf by simp
    with h show thesis by (rule plain)
  qed
qed

lemma jstok_string_loop_part:
  "jstok_string_loop json json_len pos = (JSTOK_ERROR_PART, at) \<Longrightarrow> pos \<le> json_len
     \<Longrightarrow> at = json_len"
proof (induction json json_len pos rule: jstok_string_loop.induct)
  case (1 json json_len pos)
  let ?h = "jstok_string_hex json json_len (pos + 1) 4"
  show ?case
  proof (cases "pos < json_len")
    case False
    with "1.prems" show ?thesis
      by (simp add: jstok_string_loop.simps [of json json_len pos])
  next
    case True
    then show ?thesis
    proof (cases rule: jstok_string_loop_cases [where json = json])
      case ctl
      with "1.prems" show ?thesis by simp
    next
      case quote
      with "1.prems" show ?thesis by simp
    next
      case esc_end
      with "1.prems" True show ?thesis by simp
    next
      case esc_simple
      from "1.IH"(1) [OF True esc_simple(1-5)] esc_simple(4,6) "1.prems"(1)
      show ?thesis by simp
    next
      case esc_hex
      from esc_hex(7) have "?h = (0, snd ?h)" by (metis prod.collapse)
      from jstok_string_hex_inside [OF this] have "snd ?h + 1 \<le> json_len" by simp
      from "1.IH"(2) [OF True esc_hex(1-7) _ this] esc_hex(8) "1.prems"(1)
      show ?thesis by simp
    next
      case esc_hex_fail
      with "1.prems"(1) have "?h = (JSTOK_ERROR_PART, at)" by simp
      from jstok_string_hex_part [OF this] esc_hex_fail(2) show ?thesis by simp
    next
      case esc_bad
      with "1.prems" show ?thesis by simp
    next
      case plain
      from "1.IH"(3) [OF True plain(1-3)] plain(4) True "1.prems"(1)
      show ?thesis by simp
    qed
  qed
qed

lemma jstok_parse_string_token_part:
  assumes "p_pos p < json_len" and "json ! nat (p_pos p) = CHR 0x22"
    and "fst (jstok_string_loop json json_len (p_pos p + 1)) = JSTOK_ERROR_PART"
  shows "jstok_parse_string_token p json json_len toks max_tokens =
           (JSTOK_ERROR_PART,
            p\<lparr>p_error_code := JSTOK_ERROR_PART, p_error_pos := json_len\<rparr>, toks)"
proof -
  obtain r at where loop: "jstok_string_loop json json_len (p_pos p + 1) = (r, at)"
    by (cases "jstok_string_loop json json_len (p_pos p + 1)")
  with assms(3) have r: "r = JSTOK_ERROR_PART" by simp
  from jstok_string_loop_part [OF loop [unfolded r]] assms(1) have "at = json_len" by simp
  with assms(1,2) loop r show ?thesis
    by (simp add: jstok_parse_string_token_def jstok_set_error_def)
qed

lemma list_update_twice_restore:
  "ts[i := g ((ts[i := f (ts ! i)]) ! i)] = ts" if "\<And>x. g (f x) = x"
proof (cases "i < length ts")
  case True
  then show ?thesis by (simp add: that)
next
  case False
  then show ?thesis by (simp add: list_update_beyond)
qed

lemma jstok_accept_value_root:
  assumes "jstok_accept_value strict p toks = (r, p1, toks1)" and "0 \<le> r"
    and "jstok_top p = None"
  shows "p1 = p\<lparr>p_root_done := 1\<rparr> \<and> toks1 = toks"
  using assms by (auto simp: jstok_accept_value_def split: if_splits)

lemma jstok_accept_value_frame:
  assumes "jstok_accept_value strict p toks = (r, p1, toks1)" and "0 \<le> r"
    and "jstok_top p = Some fr"
  shows "\<exists>st. p1 = frame_set_st p fr st \<and> toks1 = jstok_inc_container_size p toks"
  using assms by (auto simp: jstok_accept_value_def split: if_splits)

lemma frame_set_st_restore:
  "frame_set_st ((frame_set_st p fr st)\<lparr>p_error_code := c, p_error_pos := e\<rparr>) fr
     (fr_st (p_stack p fr)) = p\<lparr>p_error_code := c, p_error_pos := e\<rparr>"
  by (simp add: frame_set_st_def)

lemma jstok_rollback_value_restores:
  assumes "jstok_accept_value strict p toks = (r, p1, toks1)" and "0 \<le> r"
  shows "jstok_rollback_value p (p1\<lparr>p_error_code := c, p_error_pos := e\<rparr>) toks1 =
           (p\<lparr>p_error_code := c, p_error_pos := e\<rparr>, toks)"
proof (cases "jstok_top p")
  case None
  from jstok_accept_value_root [OF assms None] None show ?thesis
    by (simp add: jstok_rollback_value_def)
next
  case (Some fr)
  from jstok_accept_value_frame [OF assms Some] obtain st
    where p1: "p1 = frame_set_st p fr st" and toks1: "toks1 = jstok_inc_container_size p toks"
    by blast
  let ?i = "nat (fr_tok (p_stack p fr))"
  have tok: "ts[?i := (ts[?i := (ts ! ?i)\<lparr>tk_size := tk_size (ts ! ?i) + 1\<rparr>] ! ?i)
                 \<lparr>tk_size := tk_size (ts[?i := (ts ! ?i)\<lparr>tk_size := tk_size (ts ! ?i) + 1\<rparr>] ! ?i) - 1\<rparr>] = ts"
    for ts :: "jstoktok list"
    by (rule list_update_twice_restore
          [of "\<lambda>t. t\<lparr>tk_size := tk_size t - 1\<rparr>" "\<lambda>t. t\<lparr>tk_size := tk_size t + 1\<rparr>" ts ?i])
      simp
  have tok_fr: "fr_tok (p_stack (p1\<lparr>p_error_code := c, p_error_pos := e\<rparr>) fr)
                  = fr_tok (p_stack p fr)"
    by (simp add: p1 frame_set_st_def)
  have toks: "(case toks1 of
              Some ts \<Rightarrow>
                if fr_tok (p_stack p fr) \<ge> 0
                then Some (ts[?i := (ts ! ?i)\<lparr>tk_size := tk_size (ts ! ?i) - 1\<rparr>])
                else toks1
            | None \<Rightarrow> toks1) = toks"
    unfolding toks1 jstok_inc_container_size_def Some
    by (cases toks) (simp_all add: tok)
  show ?thesis
    unfolding jstok_rollback_value_def Some option.case tok_fr toks
    by (simp add: p1 frame_set_st_restore)
qed

lemma jstok_parse_key_part:
  assumes "p_pos p < json_len" and "json ! nat (p_pos p) = CHR 0x22"
    and "fst (jstok_string_loop json json_len (p_pos p + 1)) = JSTOK_ERROR_PART"
  shows "jstok_parse_key p json json_len toks max_tokens fr =
           (Some JSTOK_ERROR_PART,
            p\<lparr>p_error_code := JSTOK_ERROR_PART, p_error_pos := json_len\<rparr>, toks)"
  unfolding jstok_parse_key_def jstok_parse_string_token_part [OF assms]
  by (simp add: frame_set_st_def)

lemma jstok_parse_string_value_part:
  assumes "p_pos p < json_len" and "json ! nat (p_pos p) = CHR 0x22"
    and "fst (jstok_string_loop json json_len (p_pos p + 1)) = JSTOK_ERROR_PART"
    and "fst (jstok_accept_value strict p toks) = 0"
  shows "jstok_parse_string_value strict p json json_len toks max_tokens =
           (Some JSTOK_ERROR_PART,
            p\<lparr>p_error_code := JSTOK_ERROR_PART, p_error_pos := json_len\<rparr>, toks)"
proof -
  obtain r p1 toks1 where acc: "jstok_accept_value strict p toks = (r, p1, toks1)"
    by (cases "jstok_accept_value strict p toks")
  with assms(4) have r: "r = 0" by simp
  have pos: "p_pos p1 = p_pos p" using acc by (rule jstok_accept_value_pos)
  have str: "jstok_parse_string_token p1 json json_len toks1 max_tokens =
               (JSTOK_ERROR_PART,
                p1\<lparr>p_error_code := JSTOK_ERROR_PART, p_error_pos := json_len\<rparr>, toks1)"
    by (rule jstok_parse_string_token_part) (use assms(1-3) pos in simp_all)
  have rb: "jstok_rollback_value p
              (p1\<lparr>p_error_code := JSTOK_ERROR_PART, p_error_pos := json_len\<rparr>) toks1 =
              (p\<lparr>p_error_code := JSTOK_ERROR_PART, p_error_pos := json_len\<rparr>, toks)"
    by (rule jstok_rollback_value_restores [OF acc]) (simp add: r)
  show ?thesis
    unfolding jstok_parse_string_value_def acc prod.case str rb
    by (simp add: r)
qed

lemma jstok_parse_step_quote:
  assumes "json ! nat (p_pos p) = CHR 0x22"
  shows "jstok_parse_step strict json json_len max_tokens p toks =
     (case jstok_top p of
        Some fr \<Rightarrow>
          if fr_type (p_stack p fr) = JSTOK_OBJECT
             \<and> (fr_st (p_stack p fr) = JSTOK_ST_OBJ_KEY_OR_END
                 \<or> fr_st (p_stack p fr) = JSTOK_ST_OBJ_KEY)
          then jstok_parse_key p json json_len toks max_tokens fr
          else jstok_parse_string_value strict p json json_len toks max_tokens
      | None \<Rightarrow> jstok_parse_string_value strict p json json_len toks max_tokens)"
  using assms by (simp add: jstok_parse_step_def jstok_is_space_def)

text \<open>A cut-off string makes the scan return \<open>JSTOK_ERROR_PART\<close> at the end of the buffer.\<close>

lemma jstok_string_hex_all:
  assumes "pos + int n < json_len"
    and "\<forall>i. 1 \<le> i \<and> i \<le> n \<longrightarrow> jstok_is_hex (json ! nat (pos + int i))"
  shows "jstok_string_hex json json_len pos n = (0, pos + int n)"
  using assms
proof (induction n arbitrary: pos)
  case 0
  then show ?case by simp
next
  case (Suc n)
  from Suc.prems(2) have h1: "jstok_is_hex (json ! nat (pos + 1))"
    by (metis One_nat_def le_add1 le_refl of_nat_1 plus_1_eq_Suc)
  have "\<forall>i. 1 \<le> i \<and> i \<le> n \<longrightarrow> jstok_is_hex (json ! nat (pos + 1 + int i))"
  proof (intro allI impI)
    fix i assume "1 \<le> i \<and> i \<le> n"
    then have "1 \<le> Suc i \<and> Suc i \<le> Suc n" by simp
    with Suc.prems(2) have "jstok_is_hex (json ! nat (pos + int (Suc i)))" by blast
    then show "jstok_is_hex (json ! nat (pos + 1 + int i))" by (simp add: add.commute add.left_commute)
  qed
  moreover from Suc.prems(1) have "pos + 1 + int n < json_len" by simp
  ultimately have "jstok_string_hex json json_len (pos + 1) n = (0, pos + 1 + int n)"
    by (rule Suc.IH [rotated])
  with Suc.prems(1) h1 show ?case by simp
qed

lemma jstok_string_hex_cut:
  assumes "pos + int m + 1 = json_len" and "m < n"
    and "\<forall>i. 1 \<le> i \<and> i \<le> m \<longrightarrow> jstok_is_hex (json ! nat (pos + int i))"
  shows "jstok_string_hex json json_len pos n = (JSTOK_ERROR_PART, json_len)"
  using assms
proof (induction n arbitrary: pos m)
  case 0
  then show ?case by simp
next
  case (Suc n)
  show ?case
  proof (cases m)
    case 0
    with Suc.prems(1) show ?thesis by simp
  next
    case (Suc k)
    from Suc.prems(3) Suc have h1: "jstok_is_hex (json ! nat (pos + 1))"
      by (metis One_nat_def le_add1 le_refl of_nat_1 plus_1_eq_Suc)
    have rest: "\<forall>i. 1 \<le> i \<and> i \<le> k \<longrightarrow> jstok_is_hex (json ! nat (pos + 1 + int i))"
    proof (intro allI impI)
      fix i assume "1 \<le> i \<and> i \<le> k"
      with Suc have "1 \<le> Suc i \<and> Suc i \<le> m" by simp
      with Suc.prems(3) have "jstok_is_hex (json ! nat (pos + int (Suc i)))" by blast
      then show "jstok_is_hex (json ! nat (pos + 1 + int i))"
        by (simp add: add.commute add.left_commute)
    qed
    from Suc.prems(1) Suc have len: "pos + 1 + int k + 1 = json_len" by simp
    from Suc.prems(2) Suc have "k < n" by simp
    from Suc.IH [OF len this rest]
    have "jstok_string_hex json json_len (pos + 1) n = (JSTOK_ERROR_PART, json_len)" .
    with len h1 show ?thesis by simp
  qed
qed


lemma jstok_string_loop_plain:
  assumes "pos < json_len" and "jstok_string_plain (json ! nat pos)"
  shows "jstok_string_loop json json_len pos = jstok_string_loop json json_len (pos + 1)"
  using assms
  by (subst jstok_string_loop.simps) (simp add: jstok_string_plain_def)

lemma jstok_string_loop_simple:
  assumes "pos + 1 < json_len" and "json ! nat pos = CHR 0x5C"
    and "jstok_string_simple_escape (json ! nat (pos + 1))"
  shows "jstok_string_loop json json_len pos = jstok_string_loop json json_len (pos + 2)"
  using assms
  by (subst jstok_string_loop.simps) (auto simp: jstok_string_simple_escape_def)

lemma jstok_string_loop_hex:
  assumes "pos + 1 < json_len" and "json ! nat pos = CHR 0x5C"
    and "json ! nat (pos + 1) = CHR ''u''"
  shows "jstok_string_loop json json_len pos =
           (if fst (jstok_string_hex json json_len (pos + 1) 4) = 0
            then jstok_string_loop json json_len
                   (snd (jstok_string_hex json json_len (pos + 1) 4) + 1)
            else jstok_string_hex json json_len (pos + 1) 4)"
  using assms
  by (subst jstok_string_loop.simps) simp

lemma jstok_string_loop_backslash_end:
  assumes "pos < json_len" and "json ! nat pos = CHR 0x5C" and "pos + 1 = json_len"
  shows "jstok_string_loop json json_len pos = (JSTOK_ERROR_PART, json_len)"
  using assms
  by (subst jstok_string_loop.simps) simp

lemma jstok_string_loop_end:
  "jstok_string_loop json json_len json_len = (JSTOK_ERROR_PART, json_len)"
  by (subst jstok_string_loop.simps) simp

lemma jstok_string_loop_cut:
  assumes "list_all jstok_string_unit units" and "jstok_string_cut tail" and "0 \<le> pos"
    and "pos + int (length (concat units @ tail)) = json_len"
    and "\<forall>i < length (concat units @ tail).
           json ! nat (pos + int i) = (concat units @ tail) ! i"
  shows "jstok_string_loop json json_len pos = (JSTOK_ERROR_PART, json_len)"
  using assms(1,3,4,5)
proof (induction units arbitrary: pos)
  case Nil
  then have len: "pos + int (length tail) = json_len"
    and byte: "\<And>i. i < length tail \<Longrightarrow> json ! nat (pos + int i) = tail ! i"
    by simp_all
  from assms(2) consider "tail = []" | "tail = [CHR 0x5C]"
    | "2 \<le> length tail" "length tail < 6" "tail ! 0 = CHR 0x5C" "tail ! 1 = CHR ''u''"
      "list_all jstok_is_hex (drop 2 tail)"
    by (auto simp: jstok_string_cut_def)
  then show ?case
  proof cases
    case 1
    with len show ?thesis by (simp add: jstok_string_loop_end)
  next
    case 2
    with len byte [of 0] show ?thesis
      by (intro jstok_string_loop_backslash_end) simp_all
  next
    case 3
    from 3(1) have l0: "0 < length tail" and l1: "1 < length tail" by auto
    from byte [OF l0] byte [OF l1] 3(3,4)
    have b0: "json ! nat pos = CHR 0x5C" and b1: "json ! nat (pos + 1) = CHR ''u''"
      by simp_all
    from 3(1) len have inside: "pos + 1 < json_len" by simp
    have hex: "\<forall>i. 1 \<le> i \<and> i \<le> length tail - 2 \<longrightarrow>
                 jstok_is_hex (json ! nat (pos + 1 + int i))"
    proof (intro allI impI)
      fix i assume "1 \<le> i \<and> i \<le> length tail - 2"
      then have i: "1 \<le> i" "i \<le> length tail - 2" by simp_all
      with 3(1) have lt: "i + 1 < length tail" by arith
      from byte [OF lt] have "json ! nat (pos + 1 + int i) = tail ! (i + 1)"
        by (simp add: add.commute add.left_commute)
      moreover from i lt have "i - 1 < length (drop 2 tail)" by simp
      with 3(5) have "jstok_is_hex (drop 2 tail ! (i - 1))"
        by (simp add: list_all_length)
      moreover from i lt have "drop 2 tail ! (i - 1) = tail ! (i + 1)" by simp
      ultimately show "jstok_is_hex (json ! nat (pos + 1 + int i))" by simp
    qed
    from 3(1) len have "pos + 1 + int (length tail - 2) + 1 = json_len" by simp
    moreover from 3(2) have "length tail - 2 < 4" by simp
    ultimately
    have "jstok_string_hex json json_len (pos + 1) 4 = (JSTOK_ERROR_PART, json_len)"
      using hex by (rule jstok_string_hex_cut)
    with inside b0 b1 show ?thesis
      by (simp add: jstok_string_loop_hex)
  qed
next
  case (Cons u us)
  let ?rest = "concat us @ tail"
  from Cons.prems(1) have unit: "jstok_string_unit u" and units: "list_all jstok_string_unit us"
    by simp_all
  from Cons.prems(3) have len: "pos + int (length u) + int (length ?rest) = json_len"
    by simp
  have byte: "json ! nat (pos + int i) = u ! i" if "i < length u" for i
    using Cons.prems(4) that by (auto simp: nth_append dest!: spec [of _ i])
  have rest: "\<forall>i < length ?rest. json ! nat (pos + int (length u) + int i) = ?rest ! i"
  proof (intro allI impI)
    fix i assume i: "i < length ?rest"
    then have "length u + i < length (concat (u # us) @ tail)" by simp
    with Cons.prems(4)
    have "json ! nat (pos + int (length u + i)) = (concat (u # us) @ tail) ! (length u + i)"
      by blast
    then show "json ! nat (pos + int (length u) + int i) = ?rest ! i"
      by (simp add: nth_append add.assoc)
  qed
  from Cons.prems(2) have pos': "0 \<le> pos + int (length u)" by simp
  note IH = Cons.IH [OF units pos' len rest]
  from unit consider "length u = 1" "jstok_string_plain (u ! 0)"
    | "length u = 2" "u ! 0 = CHR 0x5C" "jstok_string_simple_escape (u ! 1)"
    | "length u = 6" "u ! 0 = CHR 0x5C" "u ! 1 = CHR ''u''" "list_all jstok_is_hex (drop 2 u)"
    by (auto simp: jstok_string_unit_def)
  then show ?case
  proof cases
    case 1
    with byte [of 0] len have "pos < json_len" "jstok_string_plain (json ! nat pos)"
      by simp_all
    from jstok_string_loop_plain [OF this] IH 1(1) show ?thesis by simp
  next
    case 2
    with byte [of 0] byte [of 1] len
    have "pos + 1 < json_len" "json ! nat pos = CHR 0x5C"
      "jstok_string_simple_escape (json ! nat (pos + 1))"
      by simp_all
    from jstok_string_loop_simple [OF this] IH 2(1) show ?thesis by simp
  next
    case 3
    from 3(1) have l0: "0 < length u" and l1: "1 < length u" by auto
    from byte [OF l0] byte [OF l1] 3(2,3)
    have b0: "json ! nat pos = CHR 0x5C" and b1: "json ! nat (pos + 1) = CHR ''u''"
      by simp_all
    from 3(1) len have inside: "pos + 1 < json_len" by simp
    have hex: "\<forall>i. 1 \<le> i \<and> i \<le> 4 \<longrightarrow> jstok_is_hex (json ! nat (pos + 1 + int i))"
    proof (intro allI impI)
      fix i :: nat assume "1 \<le> i \<and> i \<le> 4"
      then have i: "1 \<le> i" "i \<le> 4" by simp_all
      with 3(1) have lt: "i + 1 < length u" by simp
      from byte [OF lt] have "json ! nat (pos + 1 + int i) = u ! (i + 1)"
        by (simp add: add.commute add.left_commute)
      moreover from i 3(1) have "i - 1 < length (drop 2 u)" by simp
      with 3(4) have "jstok_is_hex (drop 2 u ! (i - 1))"
        by (simp add: list_all_length)
      moreover from i lt have "drop 2 u ! (i - 1) = u ! (i + 1)" by simp
      ultimately show "jstok_is_hex (json ! nat (pos + 1 + int i))" by simp
    qed
    from 3(1) len have "pos + 1 + int 4 < json_len" by simp
    then have "jstok_string_hex json json_len (pos + 1) 4 = (0, pos + 1 + int 4)"
      using hex by (rule jstok_string_hex_all)
    with inside b0 b1 IH 3(1) show ?thesis
      by (simp add: jstok_string_loop_hex add.commute add.left_commute)
  qed
qed

lemma jstok_string_admitted_cases:
  assumes "jstok_string_admitted strict p"
  shows "(\<exists>fr. jstok_top p = Some fr \<and> fr_type (p_stack p fr) = JSTOK_OBJECT
               \<and> (fr_st (p_stack p fr) = JSTOK_ST_OBJ_KEY_OR_END
                   \<or> fr_st (p_stack p fr) = JSTOK_ST_OBJ_KEY))
          \<or> fst (jstok_accept_value strict p toks) = 0"
  using assms
  by (auto simp: jstok_string_admitted_def jstok_accept_value_def split: option.splits)

lemma jstok_string_admitted_error [simp]:
  "jstok_string_admitted strict (p\<lparr>p_error_pos := e, p_error_code := c\<rparr>)
     = jstok_string_admitted strict p"
  by (simp add: jstok_string_admitted_def jstok_top_def)

lemma jstok_buffer_bytes:
  assumes "0 \<le> pos" and "pos \<le> json_len" and "json_len \<le> int (length json)"
    and "drop (nat pos) (take (nat json_len) json) = bs"
  shows "pos + int (length bs) = json_len"
    and "\<forall>i < length bs. json ! nat (pos + int i) = bs ! i"
proof -
  from assms show len: "pos + int (length bs) = json_len" by auto
  show "\<forall>i < length bs. json ! nat (pos + int i) = bs ! i"
  proof (intro allI impI)
    fix i assume i: "i < length bs"
    with len assms(1) have lt: "nat pos + i < nat json_len" by simp
    from assms(4) have "bs ! i = drop (nat pos) (take (nat json_len) json) ! i" by simp
    also from lt assms(3) have "\<dots> = json ! (nat pos + i)" by simp
    also from assms(1) have "nat pos + i = nat (pos + int i)" by simp
    finally show "json ! nat (pos + int i) = bs ! i" by simp
  qed
qed

lemma jstok_parse_loop_string_part:
  assumes lt: "p_pos p < json_len" and q: "json ! nat (p_pos p) = CHR 0x22"
    and part: "jstok_string_loop json json_len (p_pos p + 1) = (JSTOK_ERROR_PART, json_len)"
    and adm: "jstok_string_admitted strict p"
  shows "jstok_parse_loop strict json json_len max_tokens p toks =
          (JSTOK_ERROR_PART,
           p\<lparr>p_error_code := JSTOK_ERROR_PART, p_error_pos := json_len\<rparr>, toks)"
proof -
  from part have part': "fst (jstok_string_loop json json_len (p_pos p + 1)) = JSTOK_ERROR_PART"
    by simp
  note key = jstok_parse_key_part [OF lt q part']
  have "jstok_parse_step strict json json_len max_tokens p toks =
          (Some JSTOK_ERROR_PART,
           p\<lparr>p_error_code := JSTOK_ERROR_PART, p_error_pos := json_len\<rparr>, toks)"
  proof (cases "\<exists>fr. jstok_top p = Some fr \<and> fr_type (p_stack p fr) = JSTOK_OBJECT
               \<and> (fr_st (p_stack p fr) = JSTOK_ST_OBJ_KEY_OR_END
                   \<or> fr_st (p_stack p fr) = JSTOK_ST_OBJ_KEY)")
    case True
    then show ?thesis
      unfolding jstok_parse_step_quote [OF q] by (auto simp: key)
  next
    case False
    with jstok_string_admitted_cases [OF adm, of toks]
    have "fst (jstok_accept_value strict p toks) = 0" by blast
    note jstok_parse_string_value_part [OF lt q part' this]
    with False show ?thesis
      unfolding jstok_parse_step_quote [OF q] by (auto split: option.splits)
  qed
  with lt show ?thesis
    by (simp add: jstok_parse_loop_run)
qed

text \<open>
  Claim C2. Let the loop of \<open>jstok_parse\<close> stand at an opening quote within a buffer of
  \<open>json_len\<close> bytes, in a state that admits a string, and let the string be cut off: the
  bytes between the quote and the end of the buffer are complete units followed by
  nothing (the buffer ends inside the string), by a lone backslash, or by \<open>\u\<close> with fewer
  than four hexadecimal digits (the buffer ends in the middle of an escape). Then the
  call returns \<open>JSTOK_ERROR_PART\<close> and the parser is as it was when the iteration began,
  position included (so it is back at the opening quote), except that \<open>error_code\<close> is
  \<open>JSTOK_ERROR_PART\<close> and \<open>error_pos\<close> is the buffer length: depth, token count, root
  flag, every frame and every token are unchanged. The same holds for a call of
  \<open>jstok_parse\<close> that is entered at the opening quote. In particular the six bytes
  \<open>"a\u12\<close>, parsed from position 0 by a freshly initialised parser, give
  \<open>JSTOK_ERROR_PART\<close> with the position back at 0.
\<close>

theorem jstok_parse_string_partial:
  "(0 \<le> p_pos p \<and> p_pos p < json_len \<and> json_len \<le> int (length json)
     \<and> json ! nat (p_pos p) = CHR 0x22
     \<and> drop (nat (p_pos p + 1)) (take (nat json_len) json) = concat units @ tail
     \<and> list_all jstok_string_unit units \<and> jstok_string_cut tail
     \<and> jstok_string_admitted strict p
    \<longrightarrow> jstok_parse_loop strict json json_len max_tokens p toks =
          (JSTOK_ERROR_PART,
           p\<lparr>p_error_code := JSTOK_ERROR_PART, p_error_pos := json_len\<rparr>, toks)
      \<and> jstok_parse strict (Some p) (Some json) json_len toks max_tokens =
          (JSTOK_ERROR_PART,
           Some (p\<lparr>p_error_code := JSTOK_ERROR_PART, p_error_pos := json_len\<rparr>), toks))
   \<and> jstok_parse strict (Some (jstok_init q))
        (Some [CHR 0x22, CHR ''a'', CHR 0x5C, CHR ''u'', CHR ''1'', CHR ''2'']) 6
        tokens max_tokens =
       (JSTOK_ERROR_PART,
        Some ((jstok_init q)\<lparr>p_error_code := JSTOK_ERROR_PART, p_error_pos := 6\<rparr>), tokens)"
proof (intro conjI impI)
  assume a: "0 \<le> p_pos p \<and> p_pos p < json_len \<and> json_len \<le> int (length json)
     \<and> json ! nat (p_pos p) = CHR 0x22
     \<and> drop (nat (p_pos p + 1)) (take (nat json_len) json) = concat units @ tail
     \<and> list_all jstok_string_unit units \<and> jstok_string_cut tail
     \<and> jstok_string_admitted strict p"
  then have pos: "0 \<le> p_pos p + 1" "p_pos p + 1 \<le> json_len" and lt: "p_pos p < json_len"
    and buf: "json_len \<le> int (length json)" and q: "json ! nat (p_pos p) = CHR 0x22"
    and body: "drop (nat (p_pos p + 1)) (take (nat json_len) json) = concat units @ tail"
    and units: "list_all jstok_string_unit units" and tail: "jstok_string_cut tail"
    and adm: "jstok_string_admitted strict p"
    by simp_all
  note bytes = jstok_buffer_bytes [OF pos buf body]
  from units tail pos(1) bytes
  have part: "jstok_string_loop json json_len (p_pos p + 1) = (JSTOK_ERROR_PART, json_len)"
    by (rule jstok_string_loop_cut)
  from lt q part adm
  show loop: "jstok_parse_loop strict json json_len max_tokens p toks =
          (JSTOK_ERROR_PART,
           p\<lparr>p_error_code := JSTOK_ERROR_PART, p_error_pos := json_len\<rparr>, toks)"
    by (rule jstok_parse_loop_string_part)
  let ?p = "p\<lparr>p_error_pos := - 1, p_error_code := 0\<rparr>"
  have "jstok_parse_loop strict json json_len max_tokens ?p toks =
          (JSTOK_ERROR_PART,
           ?p\<lparr>p_error_code := JSTOK_ERROR_PART, p_error_pos := json_len\<rparr>, toks)"
    by (rule jstok_parse_loop_string_part) (use lt q part adm in simp_all)
  with lt pos(1) show "jstok_parse strict (Some p) (Some json) json_len toks max_tokens =
          (JSTOK_ERROR_PART,
           Some (p\<lparr>p_error_code := JSTOK_ERROR_PART, p_error_pos := json_len\<rparr>), toks)"
    by (simp add: jstok_parse_def)
next
  show "jstok_parse strict (Some (jstok_init q))
        (Some [CHR 0x22, CHR ''a'', CHR 0x5C, CHR ''u'', CHR ''1'', CHR ''2'']) 6
        tokens max_tokens =
       (JSTOK_ERROR_PART,
        Some ((jstok_init q)\<lparr>p_error_code := JSTOK_ERROR_PART, p_error_pos := 6\<rparr>), tokens)"
    by (simp add: jstok_eval_defs jstok_string_loop.simps eval_nat_numeral)
qed

theorem jstok_parse_string_partial_witness:
  "jstok_parse_loop True
     [CHR ''['', CHR 0x22, CHR ''a'', CHR 0x5C, CHR ''n'', CHR 0x5C, CHR ''u'', CHR ''0'',
      CHR ''0'', CHR ''e'', CHR ''9'', CHR ''b''] 12 1 open_array_parser
     (Some [\<lparr>tk_type = JSTOK_ARRAY, tk_start = 0, tk_end = - 1, tk_size = 0\<rparr>]) =
     (JSTOK_ERROR_PART,
      open_array_parser\<lparr>p_error_code := JSTOK_ERROR_PART, p_error_pos := 12\<rparr>,
      Some [\<lparr>tk_type = JSTOK_ARRAY, tk_start = 0, tk_end = - 1, tk_size = 0\<rparr>])
   \<and> jstok_parse True (Some open_array_parser)
       (Some [CHR ''['', CHR 0x22, CHR ''a'', CHR 0x5C, CHR ''n'', CHR 0x5C, CHR ''u'',
              CHR ''0'', CHR ''0'', CHR ''e'', CHR ''9'', CHR ''b'']) 12
       (Some [\<lparr>tk_type = JSTOK_ARRAY, tk_start = 0, tk_end = - 1, tk_size = 0\<rparr>]) 1 =
     (JSTOK_ERROR_PART,
      Some (open_array_parser\<lparr>p_error_code := JSTOK_ERROR_PART, p_error_pos := 12\<rparr>),
      Some [\<lparr>tk_type = JSTOK_ARRAY, tk_start = 0, tk_end = - 1, tk_size = 0\<rparr>])
   \<and> jstok_parse_loop False [CHR ''['', CHR 0x22, CHR 0x5C, CHR ''u'', CHR ''1'', CHR ''2'']
       6 0 open_array_parser None =
     (JSTOK_ERROR_PART,
      open_array_parser\<lparr>p_error_code := JSTOK_ERROR_PART, p_error_pos := 6\<rparr>, None)
   \<and> jstok_parse_loop True [CHR ''['', CHR 0x22, CHR ''a'', CHR 0x5C] 4 1 open_array_parser
       (Some [\<lparr>tk_type = JSTOK_ARRAY, tk_start = 0, tk_end = - 1, tk_size = 0\<rparr>]) =
     (JSTOK_ERROR_PART,
      open_array_parser\<lparr>p_error_code := JSTOK_ERROR_PART, p_error_pos := 4\<rparr>,
      Some [\<lparr>tk_type = JSTOK_ARRAY, tk_start = 0, tk_end = - 1, tk_size = 0\<rparr>])"
  using jstok_parse_string_partial [THEN conjunct1, rule_format,
      where p = open_array_parser and json_len = 12 and strict = True and max_tokens = 1
        and json = "[CHR ''['', CHR 0x22, CHR ''a'', CHR 0x5C, CHR ''n'', CHR 0x5C, CHR ''u'',
                     CHR ''0'', CHR ''0'', CHR ''e'', CHR ''9'', CHR ''b'']"
        and units = "[[CHR ''a''], [CHR 0x5C, CHR ''n''],
                      [CHR 0x5C, CHR ''u'', CHR ''0'', CHR ''0'', CHR ''e'', CHR ''9''],
                      [CHR ''b'']]"
        and tail = "[]"
        and toks = "Some [\<lparr>tk_type = JSTOK_ARRAY, tk_start = 0, tk_end = - 1, tk_size = 0\<rparr>]"]
    jstok_parse_string_partial [THEN conjunct1, rule_format,
      where p = open_array_parser and json_len = 6 and strict = False and max_tokens = 0
        and json = "[CHR ''['', CHR 0x22, CHR 0x5C, CHR ''u'', CHR ''1'', CHR ''2'']"
        and units = "[]" and tail = "[CHR 0x5C, CHR ''u'', CHR ''1'', CHR ''2'']"
        and toks = None]
    jstok_parse_string_partial [THEN conjunct1, rule_format,
      where p = open_array_parser and json_len = 4 and strict = True and max_tokens = 1
        and json = "[CHR ''['', CHR 0x22, CHR ''a'', CHR 0x5C]"
        and units = "[[CHR ''a'']]" and tail = "[CHR 0x5C]"
        and toks = "Some [\<lparr>tk_type = JSTOK_ARRAY, tk_start = 0, tk_end = - 1, tk_size = 0\<rparr>]"]
  by (simp add: open_array_parser_def jstok_string_unit_def jstok_string_cut_def
      jstok_string_plain_def jstok_string_simple_escape_def jstok_is_hex_def
      jstok_is_digit_def jstok_string_admitted_def jstok_top_def)


section \<open>Count-only mode against token mode\<close>




lemma jstok_set_error_fields [simp]:
  "p_pos (jstok_set_error p c e) = p_pos p"
  "p_toknext (jstok_set_error p c e) = p_toknext p"
  "p_depth (jstok_set_error p c e) = p_depth p"
  "p_root_done (jstok_set_error p c e) = p_root_done p"
  "p_stack (jstok_set_error p c e) = p_stack p"
  "p_error_code (jstok_set_error p c e) = c"
  "p_error_pos (jstok_set_error p c e) = e"
  by (simp_all add: jstok_set_error_def)

lemma frame_set_st_fields [simp]:
  "p_pos (frame_set_st p fr st) = p_pos p"
  "p_toknext (frame_set_st p fr st) = p_toknext p"
  "p_depth (frame_set_st p fr st) = p_depth p"
  "p_root_done (frame_set_st p fr st) = p_root_done p"
  "p_error_code (frame_set_st p fr st) = p_error_code p"
  "p_error_pos (frame_set_st p fr st) = p_error_pos p"
  by (simp_all add: frame_set_st_def)





















lemma jstok_accept_value_toknext:
  "jstok_accept_value strict p toks = (r, p', toks') \<Longrightarrow> p_toknext p' = p_toknext p"
  by (auto simp: jstok_accept_value_def split: option.splits if_splits)












section \<open>Resuming after a partial parse\<close>

subsection \<open>A recognizer that succeeds on a prefix succeeds alike on a longer buffer\<close>

lemma jstok_string_hex_mono:
  "jstok_string_hex json k pos m = (0, q) \<Longrightarrow> k \<le> n \<Longrightarrow>
   jstok_string_hex json n pos m = (0, q)"
proof (induction m arbitrary: pos)
  case 0
  then show ?case by simp
next
  case (Suc m)
  from Suc.prems(1) have inside: "pos + 1 < k" and hex: "jstok_is_hex (json ! nat (pos + 1))"
    and rest: "jstok_string_hex json k (pos + 1) m = (0, q)"
    by (simp_all split: if_splits)
  from Suc.IH [OF rest Suc.prems(2)] inside hex Suc.prems(2) show ?case by simp
qed

lemma jstok_string_loop_mono:
  "jstok_string_loop json k pos = (0, q) \<Longrightarrow> k \<le> n \<Longrightarrow>
   jstok_string_loop json n pos = (0, q)"
proof (induction json k pos rule: jstok_string_loop.induct)
  case (1 json k pos)
  note unf = jstok_string_loop.simps [of json n pos]
  let ?h = "jstok_string_hex json k (pos + 1) 4"
  have lt: "pos < k"
  proof (rule ccontr)
    assume "\<not> pos < k"
    with "1.prems"(1) show False by (simp add: jstok_string_loop.simps [of json k pos])
  qed
  with "1.prems"(2) have ltn: "pos < n" by simp
  from lt show ?case
  proof (cases rule: jstok_string_loop_cases [where json = json])
    case ctl
    with "1.prems" show ?thesis by simp
  next
    case quote
    with "1.prems"(1) ltn show ?thesis unfolding unf by simp
  next
    case esc_end
    with "1.prems" show ?thesis by simp
  next
    case esc_simple
    from "1.IH"(1) [OF lt esc_simple(1-5) _ "1.prems"(2)] esc_simple(6) "1.prems"(1)
    have "jstok_string_loop json n (pos + 2) = (0, q)" by simp
    with esc_simple(1-5) ltn "1.prems"(2) show ?thesis unfolding unf by auto
  next
    case esc_hex
    from esc_hex(7) have h: "?h = (0, snd ?h)" by (metis prod.collapse)
    note hn = jstok_string_hex_mono [OF h "1.prems"(2)]
    from "1.IH"(2) [OF lt esc_hex(1-7) _ "1.prems"(2)] esc_hex(8) "1.prems"(1)
    have "jstok_string_loop json n (snd ?h + 1) = (0, q)" by simp
    with esc_hex(1-6) ltn "1.prems"(2) hn show ?thesis unfolding unf by auto
  next
    case esc_hex_fail
    with "1.prems"(1) show ?thesis by simp
  next
    case esc_bad
    with "1.prems" show ?thesis by simp
  next
    case plain
    from "1.IH"(3) [OF lt plain(1-3) _ "1.prems"(2)] plain(4) "1.prems"(1)
    have "jstok_string_loop json n (pos + 1) = (0, q)" by simp
    with plain(1-3) ltn show ?thesis unfolding unf by simp
  qed
qed

lemma jstok_skip_digits_mono:
  "jstok_skip_digits json k i < k \<Longrightarrow> k \<le> n \<Longrightarrow>
   jstok_skip_digits json n i = jstok_skip_digits json k i"
proof (induction json k i rule: jstok_skip_digits.induct)
  case (1 json k i)
  note unfk = jstok_skip_digits.simps [of json k i]
    and unfn = jstok_skip_digits.simps [of json n i]
  show ?case
  proof (cases "i < k \<and> jstok_is_digit (json ! nat i)")
    case True
    with "1.prems"(1) have "jstok_skip_digits json k (i + 1) < k" unfolding unfk by simp
    from "1.IH" [OF True this "1.prems"(2)] True "1.prems"(2) show ?thesis
      unfolding unfk unfn by simp
  next
    case False
    with "1.prems"(1) have "i < k" unfolding unfk by simp
    with False "1.prems"(2) show ?thesis unfolding unfk unfn by simp
  qed
qed

lemma jstok_number_end_mono:
  "jstok_number_end json k i = (0, e) \<Longrightarrow> k \<le> n \<Longrightarrow> jstok_number_end json n i = (0, e)"
  by (auto simp: jstok_number_end_def split: if_splits)

lemma jstok_number_end_inside:
  "jstok_number_end json k i = (0, e) \<Longrightarrow> i < k"
  by (auto simp: jstok_number_end_def split: if_splits)

lemma jstok_number_digits_end_mono:
  assumes "jstok_number_end json k (jstok_skip_digits json k i) = (0, e)" and "k \<le> n"
  shows "jstok_number_end json n (jstok_skip_digits json n i) = (0, e)"
proof -
  from jstok_number_end_inside [OF assms(1)] have "jstok_skip_digits json k i < k" .
  from jstok_skip_digits_mono [OF this assms(2)] jstok_number_end_mono [OF assms]
  show ?thesis by simp
qed

lemma jstok_number_exp_mono:
  assumes "jstok_number_exp json k i = (0, e)" and "k \<le> n"
  shows "jstok_number_exp json n i = (0, e)"
proof -
  note d1 = jstok_number_digits_end_mono [of json k "i + 1" e n]
    and d2 = jstok_number_digits_end_mono [of json k "i + 2" e n]
    and en = jstok_number_end_mono [of json k i e n] jstok_number_end_inside [of json k i e]
  from assms d1 d2 en show ?thesis
    unfolding jstok_number_exp_def
    by (auto split: if_splits)
qed

lemma jstok_number_exp_inside:
  "jstok_number_exp json k i = (0, e) \<Longrightarrow> i < k"
  by (auto simp: jstok_number_exp_def split: if_splits dest: jstok_number_end_inside)

lemma jstok_number_digits_exp_mono:
  assumes "jstok_number_exp json k (jstok_skip_digits json k i) = (0, e)" and "k \<le> n"
  shows "jstok_number_exp json n (jstok_skip_digits json n i) = (0, e)"
proof -
  from jstok_number_exp_inside [OF assms(1)] have "jstok_skip_digits json k i < k" .
  from jstok_skip_digits_mono [OF this assms(2)] jstok_number_exp_mono [OF assms]
  show ?thesis by simp
qed

lemma jstok_number_frac_mono:
  assumes "jstok_number_frac json k i = (0, e)" and "k \<le> n"
  shows "jstok_number_frac json n i = (0, e)"
proof -
  note d1 = jstok_number_digits_exp_mono [of json k "i + 1" e n]
    and ex = jstok_number_exp_mono [of json k i e n] jstok_number_exp_inside [of json k i e]
  from assms d1 ex show ?thesis
    unfolding jstok_number_frac_def
    by (auto split: if_splits)
qed

lemma jstok_number_frac_inside:
  "jstok_number_frac json k i = (0, e) \<Longrightarrow> i < k"
  by (auto simp: jstok_number_frac_def split: if_splits dest: jstok_number_exp_inside)

lemma jstok_number_int_mono:
  assumes "jstok_number_int strict json k i = (0, e)" and "k \<le> n"
  shows "jstok_number_int strict json n i = (0, e)"
proof -
  have d1: "jstok_number_frac json n (jstok_skip_digits json n (i + 1)) = (0, e)"
    if "jstok_number_frac json k (jstok_skip_digits json k (i + 1)) = (0, e)"
  proof -
    from jstok_number_frac_inside [OF that] have "jstok_skip_digits json k (i + 1) < k" .
    from jstok_skip_digits_mono [OF this assms(2)] jstok_number_frac_mono [OF that assms(2)]
    show ?thesis by simp
  qed
  note fr = jstok_number_frac_mono [of json k "i + 1" e n]
    jstok_number_frac_inside [of json k "i + 1" e]
  from assms d1 fr show ?thesis
    unfolding jstok_number_int_def
    by (auto split: if_splits)
qed

lemma jstok_number_scan_mono:
  assumes "jstok_number_scan strict json k i = (0, e)" and "k \<le> n"
  shows "jstok_number_scan strict json n i = (0, e)"
  using assms jstok_number_int_mono [of strict json k i e n]
    jstok_number_int_mono [of strict json k "i + 1" e n]
  unfolding jstok_number_scan_def
  by (auto split: if_splits)

lemma jstok_number_scan_code:
  "jstok_number_scan strict json k i = (r, e) \<Longrightarrow> r = 0 \<or> r < 0"
  unfolding jstok_number_scan_def jstok_number_int_def jstok_number_frac_def
    jstok_number_exp_def jstok_number_end_def
  by (auto split: if_splits)

lemma jstok_literal_loop_mono:
  "jstok_literal_loop json k pos lit i = (0, j) \<Longrightarrow> k \<le> n \<Longrightarrow>
   jstok_literal_loop json n pos lit i = (0, j)"
proof (induction lit arbitrary: i)
  case Nil
  then show ?case by simp
next
  case (Cons l lit)
  from Cons.prems(1) have here: "pos + i < k" "json ! nat (pos + i) = l"
    and rest: "jstok_literal_loop json k pos lit (i + 1) = (0, j)"
    by (simp_all split: if_splits)
  from Cons.IH [OF rest Cons.prems(2)] here Cons.prems(2) show ?case by simp
qed

lemma jstok_literal_loop_code:
  "jstok_literal_loop json k pos lit i = (r, j) \<Longrightarrow> r = 0 \<or> r < 0"
  by (induction lit arbitrary: i) (auto split: if_splits)

lemma jstok_string_hex_code:
  "jstok_string_hex json k pos m = (r, q) \<Longrightarrow> r = 0 \<or> r < 0"
  by (induction m arbitrary: pos) (auto split: if_splits)

lemma jstok_parse_string_token_mono:
  assumes "jstok_parse_string_token p json k toks max_tokens = (r, p', toks')"
    and "0 \<le> r" and "k \<le> n"
  shows "jstok_parse_string_token p json n toks max_tokens = (r, p', toks')"
proof -
  obtain r0 at where loop: "jstok_string_loop json k (p_pos p + 1) = (r0, at)"
    by (cases "jstok_string_loop json k (p_pos p + 1)")
  from assms(1,2) have start: "p_pos p < k" "json ! nat (p_pos p) = CHR 0x22"
    by (auto simp: jstok_parse_string_token_def Let_def split: if_splits)
  from assms(1,2) start loop have r0: "r0 = 0"
    by (auto simp: jstok_parse_string_token_def Let_def split: if_splits)
  from jstok_string_loop_mono [OF loop [unfolded r0] assms(3)]
  have "jstok_string_loop json n (p_pos p + 1) = (0, at)" .
  with assms(1,3) start loop r0 show ?thesis
    by (simp add: jstok_parse_string_token_def Let_def)
qed

lemma jstok_parse_literal_mono:
  assumes "jstok_parse_literal p json k lit = (r, p')" and "0 \<le> r" and "k \<le> n"
  shows "jstok_parse_literal p json n lit = (r, p')
       \<or> (\<exists>p''. jstok_parse_literal p json n lit = (JSTOK_ERROR_INVAL, p''))"
proof -
  obtain r0 i where loop: "jstok_literal_loop json k (p_pos p) lit 0 = (r0, i)"
    by (cases "jstok_literal_loop json k (p_pos p) lit 0")
  from assms(1,2) loop have "\<not> r0 < 0"
    by (auto simp: jstok_parse_literal_def split: if_splits)
  with jstok_literal_loop_code [OF loop] have r0: "r0 = 0" by simp
  from jstok_literal_loop_mono [OF loop [unfolded r0] assms(3)]
  have "jstok_literal_loop json n (p_pos p) lit 0 = (0, i)" .
  with assms(1,2) loop r0 show ?thesis
    by (auto simp: jstok_parse_literal_def split: if_splits)
qed

lemma jstok_primitive_literal_mono:
  assumes "jstok_primitive_literal p json k toks max_tokens lit = (r, p', toks')"
    and "0 \<le> r" and "k \<le> n"
  shows "jstok_primitive_literal p json n toks max_tokens lit = (r, p', toks')
       \<or> (\<exists>p''. jstok_primitive_literal p json n toks max_tokens lit
                   = (JSTOK_ERROR_INVAL, p'', toks))"
proof -
  obtain m p1 where lit: "jstok_parse_literal p json k lit = (m, p1)"
    by (cases "jstok_parse_literal p json k lit")
  from assms(1,2) lit have m: "0 \<le> m"
    by (auto simp: jstok_primitive_literal_def Let_def split: if_splits)
  from jstok_parse_literal_mono [OF lit m assms(3)] assms(1) lit m show ?thesis
    by (auto simp: jstok_primitive_literal_def Let_def)
qed

lemma jstok_parse_primitive_token_mono:
  assumes "jstok_parse_primitive_token strict p json k toks max_tokens = (r, p', toks')"
    and "0 \<le> r" and "k \<le> n"
  shows "jstok_parse_primitive_token strict p json n toks max_tokens = (r, p', toks')
       \<or> (\<exists>p''. jstok_parse_primitive_token strict p json n toks max_tokens
                   = (JSTOK_ERROR_INVAL, p'', toks))"
proof -
  from assms(1,2) have inside: "p_pos p < k"
    by (auto simp: jstok_parse_primitive_token_def Let_def split: if_splits)
  with assms(3) have inside_n: "\<not> p_pos p \<ge> n" by simp
  let ?c = "json ! nat (p_pos p)"
  consider (lit) lit where "lit = ''true'' \<or> lit = ''false'' \<or> lit = ''null''"
      "\<And>j. jstok_parse_primitive_token strict p json j toks max_tokens =
         (if p_pos p \<ge> j
          then (JSTOK_ERROR_PART, jstok_set_error p JSTOK_ERROR_PART (p_pos p), toks)
          else jstok_primitive_literal p json j toks max_tokens lit)"
    | (num) "?c \<noteq> CHR ''t''" "?c \<noteq> CHR ''f''" "?c \<noteq> CHR ''n''"
  proof (cases "?c = CHR ''t'' \<or> ?c = CHR ''f'' \<or> ?c = CHR ''n''")
    case True
    then consider "?c = CHR ''t''" | "?c = CHR ''f''" | "?c = CHR ''n''" by blast
    then show ?thesis
    proof cases
      case 1
      then show ?thesis
        by (intro lit [of "''true''"]) (simp_all add: jstok_parse_primitive_token_def)
    next
      case 2
      then show ?thesis
        by (intro lit [of "''false''"]) (simp_all add: jstok_parse_primitive_token_def)
    next
      case 3
      then show ?thesis
        by (intro lit [of "''null''"]) (simp_all add: jstok_parse_primitive_token_def)
    qed
  next
    case False
    then show ?thesis by (intro num) simp_all
  qed
  then show ?thesis
  proof cases
    case lit
    from assms(1) inside have "jstok_primitive_literal p json k toks max_tokens lit
                                 = (r, p', toks')"
      by (simp add: lit(2))
    from jstok_primitive_literal_mono [OF this assms(2,3)] inside_n show ?thesis
      by (simp add: lit(2))
  next
    case num
    obtain r0 e where scan: "jstok_number_scan strict json k (p_pos p) = (r0, e)"
      by (cases "jstok_number_scan strict json k (p_pos p)")
    from assms(1,2) inside num scan have "\<not> r0 < 0"
      by (auto simp: jstok_parse_primitive_token_def jstok_parse_number_span_def Let_def
          split: if_splits)
    with jstok_number_scan_code [OF scan] have r0: "r0 = 0" by simp
    from jstok_number_scan_mono [OF scan [unfolded r0] assms(3)]
    have "jstok_number_scan strict json n (p_pos p) = (0, e)" .
    with assms(1) inside inside_n num scan r0 show ?thesis
      by (simp add: jstok_parse_primitive_token_def jstok_parse_number_span_def Let_def)
  qed
qed

lemma jstok_parse_key_mono:
  assumes "jstok_parse_key p json k toks max_tokens fr = (None, p', toks')" and "k \<le> n"
  shows "jstok_parse_key p json n toks max_tokens fr = (None, p', toks')"
proof -
  obtain r p1 t1 where str: "jstok_parse_string_token p json k toks max_tokens = (r, p1, t1)"
    by (cases "jstok_parse_string_token p json k toks max_tokens")
  from assms(1) str have r: "0 \<le> r"
    by (auto simp: jstok_parse_key_def split: if_splits)
  from jstok_parse_string_token_mono [OF str r assms(2)] assms(1) str show ?thesis
    by (simp add: jstok_parse_key_def)
qed

lemma jstok_parse_string_value_mono:
  assumes "jstok_parse_string_value strict p json k toks max_tokens = (None, p', toks')"
    and "k \<le> n"
  shows "jstok_parse_string_value strict p json n toks max_tokens = (None, p', toks')"
proof -
  obtain r0 p0 t0 where acc: "jstok_accept_value strict p toks = (r0, p0, t0)"
    by (cases "jstok_accept_value strict p toks")
  obtain r p1 t1 where str: "jstok_parse_string_token p0 json k t0 max_tokens = (r, p1, t1)"
    by (cases "jstok_parse_string_token p0 json k t0 max_tokens")
  from assms(1) acc str have r: "\<not> r0 < 0" "0 \<le> r"
    by (auto simp: jstok_parse_string_value_def split: if_splits prod.splits)
  from jstok_parse_string_token_mono [OF str r(2) assms(2)] assms(1) acc str r(1)
  show ?thesis
    by (simp add: jstok_parse_string_value_def)
qed

lemma jstok_parse_primitive_value_mono:
  assumes "jstok_parse_primitive_value strict p json k toks max_tokens = (None, p', toks')"
    and "k \<le> n"
  shows "jstok_parse_primitive_value strict p json n toks max_tokens = (None, p', toks')
       \<or> (\<exists>p'' toks''. jstok_parse_primitive_value strict p json n toks max_tokens
                   = (Some JSTOK_ERROR_INVAL, p'', toks''))"
proof -
  obtain r0 p0 t0 where acc: "jstok_accept_value strict p toks = (r0, p0, t0)"
    by (cases "jstok_accept_value strict p toks")
  obtain r p1 t1
    where prim: "jstok_parse_primitive_token strict p0 json k t0 max_tokens = (r, p1, t1)"
    by (cases "jstok_parse_primitive_token strict p0 json k t0 max_tokens")
  from assms(1) acc prim have r: "\<not> r0 < 0" "0 \<le> r"
    by (auto simp: jstok_parse_primitive_value_def split: if_splits prod.splits)
  from jstok_parse_primitive_token_mono [OF prim r(2) assms(2)] assms(1) acc prim r(1)
  show ?thesis
    by (auto simp: jstok_parse_primitive_value_def)
qed

lemma jstok_parse_step_mono:
  assumes "jstok_parse_step strict json k max_tokens p toks = (None, p', toks')" and "k \<le> n"
  shows "jstok_parse_step strict json n max_tokens p toks = (None, p', toks')
       \<or> (\<exists>p'' toks''. jstok_parse_step strict json n max_tokens p toks
                   = (Some JSTOK_ERROR_INVAL, p'', toks''))"
proof -
  let ?c = "json ! nat (p_pos p)"
  consider (key) fr where "?c = CHR 0x22"
      "\<And>j. jstok_parse_step strict json j max_tokens p toks =
             jstok_parse_key p json j toks max_tokens fr"
    | (str) "?c = CHR 0x22"
      "\<And>j. jstok_parse_step strict json j max_tokens p toks =
             jstok_parse_string_value strict p json j toks max_tokens"
    | (prim)
      "\<And>j. jstok_parse_step strict json j max_tokens p toks =
             jstok_parse_primitive_value strict p json j toks max_tokens"
    | (other)
      "jstok_parse_step strict json n max_tokens p toks =
         jstok_parse_step strict json k max_tokens p toks"
  proof (cases "?c = CHR 0x22")
    case True
    show ?thesis
    proof (cases "jstok_top p")
      case None
      with True show ?thesis
        by (intro str) (simp_all add: jstok_parse_step_quote)
    next
      case (Some fr)
      show ?thesis
      proof (cases "fr_type (p_stack p fr) = JSTOK_OBJECT
          \<and> (fr_st (p_stack p fr) = JSTOK_ST_OBJ_KEY_OR_END
              \<or> fr_st (p_stack p fr) = JSTOK_ST_OBJ_KEY)")
        case True
        with \<open>?c = CHR 0x22\<close> Some show ?thesis
          by (intro key [of fr]) (simp_all add: jstok_parse_step_quote)
      next
        case False
        with \<open>?c = CHR 0x22\<close> Some show ?thesis
          by (intro str) (auto simp: jstok_parse_step_quote)
      qed
    qed
  next
    case nq: False
    show ?thesis
    proof (cases "jstok_is_space ?c \<or> ?c = CHR ''{'' \<or> ?c = CHR ''['' \<or> ?c = CHR ''}''
        \<or> ?c = CHR '']'' \<or> ?c = CHR '':'' \<or> ?c = CHR '',''")
      case True
      then show ?thesis
        by (intro other) (auto simp: jstok_parse_step_def Let_def)
    next
      case False
      with nq show ?thesis
        by (intro prim) (simp add: jstok_parse_step_def Let_def)
    qed
  qed
  then show ?thesis
  proof cases
    case key
    from jstok_parse_key_mono [OF assms(1) [unfolded key(2)] assms(2)] show ?thesis
      by (simp add: key(2))
  next
    case str
    from jstok_parse_string_value_mono [OF assms(1) [unfolded str(2)] assms(2)] show ?thesis
      by (simp add: str(2))
  next
    case prim
    from jstok_parse_primitive_value_mono [OF assms(1) [unfolded prim] assms(2)] show ?thesis
      by (simp add: prim)
  next
    case other
    with assms(1) show ?thesis by simp
  qed
qed

lemma jstok_quiet_refl [simp]: "jstok_quiet p p"
  by (simp add: jstok_quiet_def)

lemma jstok_quiet_trans: "jstok_quiet p p1 \<Longrightarrow> jstok_quiet p1 p2 \<Longrightarrow> jstok_quiet p p2"
  by (auto simp: jstok_quiet_def)

lemma jstok_quiet_pos [simp]:
  "jstok_quiet p (p'\<lparr>p_pos := x\<rparr>) = jstok_quiet p p'"
  "jstok_quiet (p\<lparr>p_pos := x\<rparr>) p' = jstok_quiet p p'"
  by (simp_all add: jstok_quiet_def)

lemma jstok_new_token_quiet:
  "jstok_new_token p toks max_tokens ty s e = (r, p', toks') \<Longrightarrow> 0 \<le> r \<Longrightarrow> jstok_quiet p p'"
  by (auto simp: jstok_new_token_def jstok_quiet_def split: option.splits if_splits)

lemma jstok_accept_value_quiet:
  "jstok_accept_value strict p toks = (r, p', toks') \<Longrightarrow> 0 \<le> r \<Longrightarrow> jstok_quiet p p'"
  by (auto simp: jstok_accept_value_def jstok_quiet_def split: option.splits if_splits)

lemma jstok_accept_key_quiet:
  "jstok_accept_key p = (r, p') \<Longrightarrow> 0 \<le> r \<Longrightarrow> jstok_quiet p p'"
  by (auto simp: jstok_accept_key_def jstok_quiet_def split: option.splits if_splits)

lemma jstok_parse_string_token_quiet:
  "jstok_parse_string_token p json json_len toks max_tokens = (r, p', toks') \<Longrightarrow> 0 \<le> r
     \<Longrightarrow> jstok_quiet p p'"
  by (auto simp: jstok_parse_string_token_def Let_def
      split: if_splits prod.splits dest!: jstok_new_token_quiet)

lemma jstok_primitive_literal_quiet:
  "jstok_primitive_literal p json json_len toks max_tokens lit = (r, p', toks') \<Longrightarrow> 0 \<le> r
     \<Longrightarrow> jstok_quiet p p'"
  by (auto simp: jstok_primitive_literal_def jstok_parse_literal_def Let_def
      split: if_splits prod.splits dest!: jstok_new_token_quiet)

lemma jstok_parse_primitive_token_quiet:
  "jstok_parse_primitive_token strict p json json_len toks max_tokens = (r, p', toks')
     \<Longrightarrow> 0 \<le> r \<Longrightarrow> jstok_quiet p p'"
  by (auto simp: jstok_parse_primitive_token_def jstok_parse_number_span_def Let_def
      split: if_splits prod.splits
      dest!: jstok_primitive_literal_quiet jstok_new_token_quiet)

lemma jstok_start_container_quiet:
  "jstok_start_container strict p toks max_tokens ty = (r, p', toks') \<Longrightarrow> 0 \<le> r
     \<Longrightarrow> jstok_quiet p p'"
  by (auto simp: jstok_start_container_def jstok_push_def
      split: if_splits prod.splits
      dest!: jstok_accept_value_quiet jstok_new_token_quiet)
    (auto simp: jstok_quiet_def)

lemma jstok_end_container_quiet:
  "jstok_end_container p toks ty closer = (r, p', toks') \<Longrightarrow> 0 \<le> r \<Longrightarrow> jstok_quiet p p'"
  by (auto simp: jstok_end_container_def jstok_pop_def jstok_quiet_def Let_def
      split: if_splits option.splits)

lemma jstok_parse_step_quiet:
  "jstok_parse_step strict json json_len max_tokens p toks = (None, p', toks')
     \<Longrightarrow> jstok_quiet p p'"
  unfolding jstok_parse_step_def Let_def jstok_return_if_negative_def
  by (auto simp: jstok_parse_colon_def jstok_parse_comma_def jstok_parse_key_def
      jstok_parse_string_value_def jstok_parse_primitive_value_def
      split: if_splits prod.splits option.splits
      dest!: jstok_start_container_quiet jstok_end_container_quiet
        jstok_parse_string_token_quiet jstok_parse_primitive_token_quiet
        jstok_accept_value_quiet jstok_accept_key_quiet)
    (auto simp: jstok_quiet_def)

lemma jstok_new_token_code:
  "jstok_new_token p toks max_tokens ty s e = (r, p', toks') \<Longrightarrow> 0 \<le> p_toknext p
     \<Longrightarrow> r = JSTOK_ERROR_NOMEM \<or> 0 \<le> r"
  by (auto simp: jstok_new_token_def split: option.splits if_splits)

lemma jstok_parse_string_token_part_exact:
  assumes "jstok_parse_string_token p json json_len toks max_tokens
             = (JSTOK_ERROR_PART, p', toks')"
    and "0 \<le> p_toknext p"
  shows "\<exists>e. p' = p\<lparr>p_error_code := JSTOK_ERROR_PART, p_error_pos := e\<rparr> \<and> toks' = toks"
proof -
  obtain r0 at where loop: "jstok_string_loop json json_len (p_pos p + 1) = (r0, at)"
    by (cases "jstok_string_loop json json_len (p_pos p + 1)")
  from assms(1) have start: "\<not> (p_pos p \<ge> json_len \<or> json ! nat (p_pos p) \<noteq> CHR 0x22)"
    by (auto simp: jstok_parse_string_token_def Let_def split: if_splits)
  have "r0 \<noteq> 0"
  proof
    assume r0: "r0 = 0"
    obtain i p1 t1
      where tok: "jstok_new_token (p\<lparr>p_pos := at\<rparr>) toks max_tokens JSTOK_STRING
                    (p_pos p + 1) at = (i, p1, t1)"
      by (cases "jstok_new_token (p\<lparr>p_pos := at\<rparr>) toks max_tokens JSTOK_STRING
                    (p_pos p + 1) at")
    from jstok_new_token_code [OF tok] assms(2) have "i = JSTOK_ERROR_NOMEM \<or> 0 \<le> i"
      by simp
    with assms(1) start loop r0 tok show False
      by (auto simp: jstok_parse_string_token_def Let_def split: if_splits)
  qed
  with assms(1) start loop show ?thesis
    by (auto simp: jstok_parse_string_token_def Let_def jstok_set_error_def split: if_splits)
qed

lemma jstok_primitive_literal_part_exact:
  assumes "jstok_primitive_literal p json json_len toks max_tokens lit
             = (JSTOK_ERROR_PART, p', toks')"
    and "0 \<le> p_toknext p"
  shows "\<exists>e. p' = p\<lparr>p_error_code := JSTOK_ERROR_PART, p_error_pos := e\<rparr> \<and> toks' = toks"
proof -
  obtain m p1 where lit: "jstok_parse_literal p json json_len lit = (m, p1)"
    by (cases "jstok_parse_literal p json json_len lit")
  show ?thesis
  proof (cases "m < 0")
    case True
    with assms(1) lit have "m = JSTOK_ERROR_PART" "p' = p1" "toks' = toks"
      by (simp_all add: jstok_primitive_literal_def Let_def)
    with lit show ?thesis
      by (auto simp: jstok_parse_literal_def jstok_set_error_def
          split: prod.splits if_splits dest!: jstok_literal_loop_ge)
  next
    case False
    with lit have p1: "p1 = p"
      by (auto simp: jstok_parse_literal_def split: prod.splits if_splits)
    from assms(1) lit False
    have "jstok_new_token (p1\<lparr>p_pos := p_pos p1 + m\<rparr>) toks max_tokens JSTOK_PRIMITIVE
            (p_pos p) (p_pos p1 + m) = (JSTOK_ERROR_PART, p', toks')"
      by (simp add: jstok_primitive_literal_def Let_def)
    from jstok_new_token_code [OF this] assms(2) p1 show ?thesis by simp
  qed
qed

lemma jstok_parse_primitive_token_part_exact:
  assumes "jstok_parse_primitive_token strict p json json_len toks max_tokens
             = (JSTOK_ERROR_PART, p', toks')"
    and "0 \<le> p_toknext p"
  shows "\<exists>e. p' = p\<lparr>p_error_code := JSTOK_ERROR_PART, p_error_pos := e\<rparr> \<and> toks' = toks"
proof -
  let ?c = "json ! nat (p_pos p)"
  consider (eob) "p_pos p \<ge> json_len"
    | (lit) lit where "\<not> p_pos p \<ge> json_len"
        "jstok_parse_primitive_token strict p json json_len toks max_tokens =
           jstok_primitive_literal p json json_len toks max_tokens lit"
    | (num) "\<not> p_pos p \<ge> json_len" "?c \<noteq> CHR ''t''" "?c \<noteq> CHR ''f''" "?c \<noteq> CHR ''n''"
  proof (cases "p_pos p \<ge> json_len")
    case True
    then show ?thesis by (rule eob)
  next
    case False
    consider "?c = CHR ''t''" | "?c \<noteq> CHR ''t''" "?c = CHR ''f''"
      | "?c \<noteq> CHR ''t''" "?c \<noteq> CHR ''f''" "?c = CHR ''n''"
      | "?c \<noteq> CHR ''t''" "?c \<noteq> CHR ''f''" "?c \<noteq> CHR ''n''"
      by blast
    then show ?thesis
    proof cases
      case 1
      with False show ?thesis
        by (intro lit [of "''true''"]) (simp_all add: jstok_parse_primitive_token_def)
    next
      case 2
      with False show ?thesis
        by (intro lit [of "''false''"]) (simp_all add: jstok_parse_primitive_token_def)
    next
      case 3
      with False show ?thesis
        by (intro lit [of "''null''"]) (simp_all add: jstok_parse_primitive_token_def)
    next
      case 4
      with False show ?thesis by (intro num)
    qed
  qed
  then show ?thesis
  proof cases
    case eob
    with assms(1) show ?thesis
      by (auto simp: jstok_parse_primitive_token_def jstok_set_error_def)
  next
    case lit
    from jstok_primitive_literal_part_exact [OF assms(1) [unfolded lit(2)] assms(2)]
    show ?thesis .
  next
    case num
    obtain r0 e where scan: "jstok_number_scan strict json json_len (p_pos p) = (r0, e)"
      by (cases "jstok_number_scan strict json json_len (p_pos p)")
    show ?thesis
    proof (cases "r0 < 0")
      case True
      with assms(1) num scan show ?thesis
        by (auto simp: jstok_parse_primitive_token_def jstok_parse_number_span_def
            jstok_set_error_def Let_def)
    next
      case False
      with assms(1) num scan
      have "jstok_new_token (p\<lparr>p_pos := e\<rparr>) toks max_tokens JSTOK_PRIMITIVE (p_pos p) e
              = (JSTOK_ERROR_PART, p', toks')"
        by (simp add: jstok_parse_primitive_token_def jstok_parse_number_span_def Let_def)
      from jstok_new_token_code [OF this] assms(2) show ?thesis by simp
    qed
  qed
qed

lemma jstok_accept_value_code:
  "jstok_accept_value strict p toks = (r, p', toks') \<Longrightarrow> r = 0 \<or> r = JSTOK_ERROR_INVAL"
  by (auto simp: jstok_accept_value_def split: option.splits if_splits)

lemma jstok_accept_key_code:
  "jstok_accept_key p = (r, p') \<Longrightarrow> r = 0 \<or> r = JSTOK_ERROR_INVAL"
  by (auto simp: jstok_accept_key_def split: option.splits if_splits)

lemma jstok_end_container_code:
  "jstok_end_container p toks ty closer = (r, p', toks') \<Longrightarrow> r = 0 \<or> r = JSTOK_ERROR_INVAL"
  by (auto simp: jstok_end_container_def Let_def split: option.splits if_splits)

lemma jstok_start_container_not_part:
  assumes "jstok_start_container strict p toks max_tokens ty = (r, p', toks')"
    and "0 \<le> p_toknext p"
  shows "r \<noteq> JSTOK_ERROR_PART"
proof -
  obtain r0 p0 t0 where acc: "jstok_accept_value strict p toks = (r0, p0, t0)"
    by (cases "jstok_accept_value strict p toks")
  obtain i p1 t1
    where tok: "jstok_new_token p0 t0 max_tokens ty (p_pos p0) (- 1) = (i, p1, t1)"
    by (cases "jstok_new_token p0 t0 max_tokens ty (p_pos p0) (- 1)")
  from jstok_accept_value_toknext [OF acc] assms(2) have "0 \<le> p_toknext p0" by simp
  from jstok_new_token_code [OF tok this] jstok_accept_value_code [OF acc] assms(1) acc tok
  show ?thesis
    by (auto simp: jstok_start_container_def jstok_push_def split: if_splits)
qed

lemma jstok_parse_key_part_exact:
  assumes "jstok_parse_key p json json_len toks max_tokens fr
             = (Some JSTOK_ERROR_PART, p', toks')"
    and "0 \<le> p_toknext p"
  shows "\<exists>e. p' = p\<lparr>p_error_code := JSTOK_ERROR_PART, p_error_pos := e\<rparr> \<and> toks' = toks"
proof -
  obtain r p1 t1
    where str: "jstok_parse_string_token p json json_len toks max_tokens = (r, p1, t1)"
    by (cases "jstok_parse_string_token p json json_len toks max_tokens")
  obtain r2 p2 where key: "jstok_accept_key p1 = (r2, p2)"
    by (cases "jstok_accept_key p1")
  from assms(1) str key jstok_accept_key_code [OF key] have r: "r = JSTOK_ERROR_PART"
    by (auto simp: jstok_parse_key_def split: if_splits)
  from jstok_parse_string_token_part_exact [OF str [unfolded r] assms(2)] obtain e
    where "p1 = p\<lparr>p_error_code := JSTOK_ERROR_PART, p_error_pos := e\<rparr>" "t1 = toks"
    by blast
  with assms(1) str r show ?thesis
    by (auto simp: jstok_parse_key_def frame_set_st_def)
qed

lemma jstok_parse_string_value_part_exact:
  assumes "jstok_parse_string_value strict p json json_len toks max_tokens
             = (Some JSTOK_ERROR_PART, p', toks')"
    and "0 \<le> p_toknext p"
  shows "\<exists>e. p' = p\<lparr>p_error_code := JSTOK_ERROR_PART, p_error_pos := e\<rparr> \<and> toks' = toks"
proof -
  obtain r0 p0 t0 where acc: "jstok_accept_value strict p toks = (r0, p0, t0)"
    by (cases "jstok_accept_value strict p toks")
  obtain r p1 t1
    where str: "jstok_parse_string_token p0 json json_len t0 max_tokens = (r, p1, t1)"
    by (cases "jstok_parse_string_token p0 json json_len t0 max_tokens")
  from assms(1) acc str jstok_accept_value_code [OF acc]
  have r0: "r0 = 0" and r: "r = JSTOK_ERROR_PART"
    by (auto simp: jstok_parse_string_value_def split: if_splits prod.splits)
  from jstok_accept_value_toknext [OF acc] assms(2) have "0 \<le> p_toknext p0" by simp
  from jstok_parse_string_token_part_exact [OF str [unfolded r] this] obtain e
    where p1: "p1 = p0\<lparr>p_error_code := JSTOK_ERROR_PART, p_error_pos := e\<rparr>" "t1 = t0"
    by blast
  have "jstok_rollback_value p p1 t1 =
          (p\<lparr>p_error_code := JSTOK_ERROR_PART, p_error_pos := e\<rparr>, toks)"
    unfolding p1 by (rule jstok_rollback_value_restores [OF acc]) (simp add: r0)
  with assms(1) acc str r0 r show ?thesis
    by (auto simp: jstok_parse_string_value_def)
qed

lemma jstok_parse_primitive_value_part_exact:
  assumes "jstok_parse_primitive_value strict p json json_len toks max_tokens
             = (Some JSTOK_ERROR_PART, p', toks')"
    and "0 \<le> p_toknext p"
  shows "\<exists>e. p' = p\<lparr>p_error_code := JSTOK_ERROR_PART, p_error_pos := e\<rparr> \<and> toks' = toks"
proof -
  obtain r0 p0 t0 where acc: "jstok_accept_value strict p toks = (r0, p0, t0)"
    by (cases "jstok_accept_value strict p toks")
  obtain r p1 t1
    where prim: "jstok_parse_primitive_token strict p0 json json_len t0 max_tokens
                   = (r, p1, t1)"
    by (cases "jstok_parse_primitive_token strict p0 json json_len t0 max_tokens")
  from assms(1) acc prim jstok_accept_value_code [OF acc]
  have r0: "r0 = 0" and r: "r = JSTOK_ERROR_PART"
    by (auto simp: jstok_parse_primitive_value_def split: if_splits prod.splits)
  from jstok_accept_value_toknext [OF acc] assms(2) have "0 \<le> p_toknext p0" by simp
  from jstok_parse_primitive_token_part_exact [OF prim [unfolded r] this] obtain e
    where p1: "p1 = p0\<lparr>p_error_code := JSTOK_ERROR_PART, p_error_pos := e\<rparr>" "t1 = t0"
    by blast
  have "jstok_rollback_value p p1 t1 =
          (p\<lparr>p_error_code := JSTOK_ERROR_PART, p_error_pos := e\<rparr>, toks)"
    unfolding p1 by (rule jstok_rollback_value_restores [OF acc]) (simp add: r0)
  with assms(1) acc prim r0 r show ?thesis
    by (auto simp: jstok_parse_primitive_value_def)
qed

lemma jstok_parse_step_part_exact:
  assumes "jstok_parse_step strict json json_len max_tokens p toks
             = (Some JSTOK_ERROR_PART, p', toks')"
    and "0 \<le> p_toknext p"
  shows "\<exists>e. p' = p\<lparr>p_error_code := JSTOK_ERROR_PART, p_error_pos := e\<rparr> \<and> toks' = toks"
proof -
  note blocks = jstok_parse_key_part_exact [OF _ assms(2)]
    jstok_parse_string_value_part_exact [OF _ assms(2)]
    jstok_parse_primitive_value_part_exact [OF _ assms(2)]
  have start: "jstok_return_if_negative (jstok_start_container strict p toks max_tokens ty)
                 \<noteq> (Some JSTOK_ERROR_PART, p', toks')" for ty
    using jstok_start_container_not_part [OF _ assms(2), of strict toks max_tokens ty]
    by (cases "jstok_start_container strict p toks max_tokens ty")
      (auto simp: jstok_return_if_negative_def)
  have close: "jstok_return_if_negative (jstok_end_container p toks ty closer)
                 \<noteq> (Some JSTOK_ERROR_PART, p', toks')" for ty closer
    using jstok_end_container_code [of p toks ty closer]
    by (cases "jstok_end_container p toks ty closer")
      (auto simp: jstok_return_if_negative_def)
  have colon: "jstok_parse_colon p toks \<noteq> (Some JSTOK_ERROR_PART, p', toks')"
    by (auto simp: jstok_parse_colon_def split: option.splits)
  have comma: "jstok_parse_comma p toks \<noteq> (Some JSTOK_ERROR_PART, p', toks')"
    by (auto simp: jstok_parse_comma_def split: option.splits)
  from assms(1) show ?thesis
    unfolding jstok_parse_step_def Let_def
    by (auto simp: start close colon comma split: if_splits option.splits dest: blocks)
qed

lemma jstok_parse_finish_part_exact:
  assumes "jstok_parse_finish strict p toks = (JSTOK_ERROR_PART, p', toks')"
    and "0 \<le> p_toknext p"
  shows "\<exists>e. p' = p\<lparr>p_error_code := JSTOK_ERROR_PART, p_error_pos := e\<rparr> \<and> toks' = toks"
  using assms
  by (auto simp: jstok_parse_finish_def jstok_set_error_def split: if_splits)

lemma jstok_parse_loop_resume:
  assumes "k \<le> n"
    and "jstok_parse_loop strict json k max_tokens p toks = (JSTOK_ERROR_PART, pA, tA)"
    and "jstok_parse_loop strict json n max_tokens p toks = (r, pC, tC)" and "0 \<le> r"
    and "0 \<le> p_toknext p"
  shows "jstok_parse_loop strict json n max_tokens
           (pA\<lparr>p_error_pos := p_error_pos p, p_error_code := p_error_code p\<rparr>) tA
         = (r, pC, tC)"
  using assms(2,3,5)
proof (induction "nat (k - p_pos p)" arbitrary: p toks rule: less_induct)
  case less
  have restore: "jstok_parse_loop strict json n max_tokens
           (pA\<lparr>p_error_pos := p_error_pos p, p_error_code := p_error_code p\<rparr>) tA
         = (r, pC, tC)"
    if "\<exists>e. pA = p\<lparr>p_error_code := JSTOK_ERROR_PART, p_error_pos := e\<rparr> \<and> tA = toks"
  proof -
    from that have "pA\<lparr>p_error_pos := p_error_pos p, p_error_code := p_error_code p\<rparr> = p"
      and "tA = toks"
      by auto
    with less.prems(2) show ?thesis by simp
  qed
  show ?case
  proof (cases "p_pos p < k")
    case False
    with less.prems(1) have "jstok_parse_finish strict p toks = (JSTOK_ERROR_PART, pA, tA)"
      by (simp add: jstok_parse_loop_exit)
    from jstok_parse_finish_part_exact [OF this less.prems(3)] show ?thesis
      by (rule restore)
  next
    case True
    with assms(1) have ltn: "p_pos p < n" by simp
    obtain ret p1 t1
      where step: "jstok_parse_step strict json k max_tokens p toks = (ret, p1, t1)"
      by (cases "jstok_parse_step strict json k max_tokens p toks")
    show ?thesis
    proof (cases ret)
      case (Some c)
      with less.prems(1) True step
      have "jstok_parse_step strict json k max_tokens p toks
              = (Some JSTOK_ERROR_PART, pA, tA)"
        by (simp add: jstok_parse_loop_run)
      from jstok_parse_step_part_exact [OF this less.prems(3)] show ?thesis
        by (rule restore)
    next
      case None
      note stepk = step [unfolded None]
      from less.prems(1) True stepk
      have loopk: "jstok_parse_loop strict json k max_tokens p1 t1 = (JSTOK_ERROR_PART, pA, tA)"
        by (simp add: jstok_parse_loop_run)
      have stepn: "jstok_parse_step strict json n max_tokens p toks = (None, p1, t1)"
      proof (rule disjE [OF jstok_parse_step_mono [OF stepk assms(1)]])
        assume "\<exists>p'' toks''. jstok_parse_step strict json n max_tokens p toks
                  = (Some JSTOK_ERROR_INVAL, p'', toks'')"
        with less.prems(2) ltn have "r = JSTOK_ERROR_INVAL"
          by (auto simp: jstok_parse_loop_run)
        with assms(4) show ?thesis by simp
      qed
      with less.prems(2) ltn
      have loopn: "jstok_parse_loop strict json n max_tokens p1 t1 = (r, pC, tC)"
        by (simp add: jstok_parse_loop_run)
      from jstok_parse_step_quiet [OF stepk] less.prems(3)
      have quiet: "p_error_pos p1 = p_error_pos p" "p_error_code p1 = p_error_code p"
        "0 \<le> p_toknext p1"
        by (simp_all add: jstok_quiet_def)
      from jstok_parse_step_advances [OF stepk] True
      have "nat (k - p_pos p1) < nat (k - p_pos p)" by simp
      from less.hyps [OF this loopk loopn quiet(3)] quiet(1,2) show ?thesis by simp
    qed
  qed
qed

subsection \<open>The tokens below the count do not depend on what the array held before\<close>

lemma jstok_agree_result_simp [simp]:
  "jstok_agree_result (r, p, t) (r', p', t') \<longleftrightarrow> r = r' \<and> jstok_agree p t p' t'"
  by (simp add: jstok_agree_result_def)

lemma jstok_agree_resultE:
  assumes "jstok_agree_result a b"
  obtains r p t p' t' where "a = (r, p, t)" "b = (r, p', t')" "jstok_agree p t p' t'"
  using assms by (cases a; cases b) (auto simp: jstok_agree_result_def)

lemma jstok_agree_fields:
  assumes "jstok_agree p toks p' toks'"
  shows "p_pos p = p_pos p'" "p_toknext p = p_toknext p'" "p_depth p = p_depth p'"
    "p_root_done p = p_root_done p'" "jstok_top p = jstok_top p'"
    "toks = None \<longleftrightarrow> toks' = None"
  using assms
  by (auto simp: jstok_agree_def jstok_top_def jstok_tokens_agree_def split: option.splits)

lemma jstok_agree_top:
  assumes "jstok_agree p toks p' toks'" and "jstok_top p' = Some fr"
  shows "p_stack p fr = p_stack p' fr"
  using assms by (auto simp: jstok_agree_def jstok_top_def split: if_splits)

lemma jstok_agree_updates:
  assumes "jstok_agree p toks p' toks'"
  shows "jstok_agree (p\<lparr>p_pos := x\<rparr>) toks (p'\<lparr>p_pos := x\<rparr>) toks'"
    "jstok_agree (p\<lparr>p_root_done := y\<rparr>) toks (p'\<lparr>p_root_done := y\<rparr>) toks'"
    "jstok_agree (jstok_set_error p c e) toks (jstok_set_error p' c e) toks'"
    "jstok_agree (jstok_pop p) toks (jstok_pop p') toks'"
    "jstok_agree (frame_set_st p fr st) toks (frame_set_st p' fr st) toks'"
  using assms by (auto simp: jstok_agree_def jstok_set_error_def jstok_pop_def frame_set_st_def)

lemma jstok_tokens_agree_cases:
  assumes "jstok_tokens_agree n toks toks'"
  obtains "toks = None" "toks' = None"
  | ts ts' where "toks = Some ts" "toks' = Some ts'" "length ts = length ts'"
  using assms by (auto simp: jstok_tokens_agree_def split: option.splits)

text \<open>Updating the same slot by the same function keeps the arrays in agreement.\<close>

lemma jstok_tokens_agree_update:
  assumes "jstok_tokens_agree n (Some ts) (Some ts')"
  shows "jstok_tokens_agree n (Some (ts[j := f (ts ! j)])) (Some (ts'[j := f (ts' ! j)]))"
proof (cases "j < length ts")
  case True
  then show ?thesis
    using assms by (auto simp: jstok_tokens_agree_def nth_list_update)
next
  case False
  then show ?thesis
    using assms by (auto simp: jstok_tokens_agree_def)
qed

lemma jstok_tokens_agree_new:
  assumes "jstok_tokens_agree n (Some ts) (Some ts')"
  shows "jstok_tokens_agree (n + 1) (Some (ts[nat n := t])) (Some (ts'[nat n := t]))"
proof (cases "nat n < length ts")
  case True
  then show ?thesis
    using assms by (auto simp: jstok_tokens_agree_def nth_list_update)
next
  case False
  then show ?thesis
    using assms by (auto simp: jstok_tokens_agree_def)
qed

lemma jstok_agree_tokens:
  "jstok_agree p toks p' toks' \<Longrightarrow> jstok_tokens_agree (p_toknext p) toks toks'"
  "jstok_agree p toks p' toks' \<Longrightarrow> jstok_tokens_agree (p_toknext p') toks toks'"
  by (auto simp: jstok_agree_def)

lemma jstok_agree_retoken:
  assumes "jstok_agree p toks p' toks'" and "p_toknext p = n" and "jstok_tokens_agree n t t'"
  shows "jstok_agree p t p' t'"
  using assms by (auto simp: jstok_agree_def)

lemma jstok_pop_toknext: "p_toknext (jstok_pop p) = p_toknext p"
  by (simp add: jstok_pop_def)

lemma jstok_new_token_agree:
  assumes "jstok_agree p toks p' toks'"
  shows "jstok_agree_result (jstok_new_token p toks max_tokens ty s e)
           (jstok_new_token p' toks' max_tokens ty s e)"
proof -
  from assms have tn: "p_toknext p = p_toknext p'" and pos: "p_pos p = p_pos p'"
    by (rule jstok_agree_fields)+
  from jstok_agree_tokens(1) [OF assms] show ?thesis
  proof (cases rule: jstok_tokens_agree_cases)
    case 1
    with assms show ?thesis
      by (simp add: jstok_new_token_def jstok_agree_def jstok_tokens_agree_def)
  next
    case (2 ts ts')
    from assms 2 have ag: "jstok_tokens_agree (p_toknext p') (Some ts) (Some ts')"
      by (auto simp: jstok_agree_def)
    from assms 2 jstok_tokens_agree_new [OF ag] show ?thesis
      by (auto simp: jstok_new_token_def jstok_agree_updates tn pos)
        (auto simp: jstok_agree_def)
  qed
qed

lemma jstok_inc_container_size_agree:
  assumes "jstok_agree p toks p' toks'"
  shows "jstok_tokens_agree (p_toknext p) (jstok_inc_container_size p toks)
           (jstok_inc_container_size p' toks')"
proof -
  from assms have top: "jstok_top p = jstok_top p'" by (rule jstok_agree_fields)
  from jstok_agree_tokens(1) [OF assms] show ?thesis
  proof (cases rule: jstok_tokens_agree_cases)
    case 1
    then show ?thesis
      by (simp add: jstok_inc_container_size_def jstok_tokens_agree_def split: option.splits)
  next
    case (2 ts ts')
    from assms 2 have ag: "jstok_tokens_agree (p_toknext p) (Some ts) (Some ts')"
      by (auto simp: jstok_agree_def)
    show ?thesis
    proof (cases "jstok_top p'")
      case None
      with 2 ag top show ?thesis by (simp add: jstok_inc_container_size_def)
    next
      case (Some fr)
      from jstok_agree_top [OF assms Some] have fr: "p_stack p fr = p_stack p' fr" .
      from jstok_tokens_agree_update [OF ag, of "nat (fr_tok (p_stack p' fr))"
          "\<lambda>t. t\<lparr>tk_size := tk_size t + 1\<rparr>"] 2 ag top Some
      show ?thesis
        by (simp add: jstok_inc_container_size_def fr)
    qed
  qed
qed

lemma jstok_accept_value_agree:
  assumes "jstok_agree p toks p' toks'"
  shows "jstok_agree_result (jstok_accept_value strict p toks)
           (jstok_accept_value strict p' toks')"
proof -
  from assms have top: "jstok_top p = jstok_top p'" and pos: "p_pos p = p_pos p'"
    and rd: "p_root_done p = p_root_done p'"
    by (rule jstok_agree_fields)+
  show ?thesis
  proof (cases "jstok_top p'")
    case None
    with assms show ?thesis
      by (simp add: jstok_accept_value_def top pos rd jstok_agree_updates)
  next
    case (Some fr)
    from jstok_agree_top [OF assms Some] have fr: "p_stack p fr = p_stack p' fr" .
    have inc: "jstok_agree (frame_set_st p fr st) (jstok_inc_container_size p toks)
                 (frame_set_st p' fr st) (jstok_inc_container_size p' toks')" for st
      using jstok_agree_updates(5) [OF assms, of fr st] frame_set_st_fields(2)
        jstok_inc_container_size_agree [OF assms]
      by (rule jstok_agree_retoken)
    from assms Some show ?thesis
      by (simp add: jstok_accept_value_def top pos fr jstok_agree_updates inc)
  qed
qed

lemma jstok_accept_key_agree:
  assumes "jstok_agree p toks p' toks'"
  shows "\<exists>r q q'. jstok_accept_key p = (r, q) \<and> jstok_accept_key p' = (r, q')
           \<and> jstok_agree q toks q' toks'"
proof -
  from assms have top: "jstok_top p = jstok_top p'" and pos: "p_pos p = p_pos p'"
    by (rule jstok_agree_fields)+
  show ?thesis
  proof (cases "jstok_top p'")
    case None
    with assms show ?thesis
      by (simp add: jstok_accept_key_def top pos jstok_agree_updates)
  next
    case (Some fr)
    from jstok_agree_top [OF assms Some] have fr: "p_stack p fr = p_stack p' fr" .
    from assms Some show ?thesis
      by (simp add: jstok_accept_key_def top pos fr jstok_agree_updates)
  qed
qed

lemma jstok_push_agree:
  assumes "jstok_agree p toks p' toks'"
  shows "\<exists>r q q'. jstok_push p ty st tok = (r, q) \<and> jstok_push p' ty st tok = (r, q')
           \<and> jstok_agree q toks q' toks'"
  using assms by (auto simp: jstok_push_def jstok_agree_def jstok_set_error_def)

lemma jstok_start_container_agree:
  assumes "jstok_agree p toks p' toks'"
  shows "jstok_agree_result (jstok_start_container strict p toks max_tokens ty)
           (jstok_start_container strict p' toks' max_tokens ty)"
proof -
  from assms have none: "toks \<noteq> None \<longleftrightarrow> toks' \<noteq> None"
    by (simp add: jstok_agree_fields(6))
  from jstok_accept_value_agree [OF assms, of strict] obtain r p1 t1 p1' t1'
    where acc: "jstok_accept_value strict p toks = (r, p1, t1)"
      "jstok_accept_value strict p' toks' = (r, p1', t1')"
      and ag1: "jstok_agree p1 t1 p1' t1'"
    by (rule jstok_agree_resultE)
  from ag1 have pos1: "p_pos p1 = p_pos p1'" by (rule jstok_agree_fields)
  from jstok_new_token_agree [OF ag1, of max_tokens ty "p_pos p1'" "- 1"] obtain i p2 t2 p2' t2'
    where tok: "jstok_new_token p1 t1 max_tokens ty (p_pos p1') (- 1) = (i, p2, t2)"
      "jstok_new_token p1' t1' max_tokens ty (p_pos p1') (- 1) = (i, p2', t2')"
      and ag2: "jstok_agree p2 t2 p2' t2'"
    by (rule jstok_agree_resultE)
  let ?st = "if ty = JSTOK_OBJECT then JSTOK_ST_OBJ_KEY_OR_END else JSTOK_ST_ARR_VALUE_OR_END"
  let ?tok = "if toks' \<noteq> None then i else - 1"
  from jstok_push_agree [OF ag2, of ty ?st ?tok] obtain r3 p3 p3'
    where push: "jstok_push p2 ty ?st ?tok = (r3, p3)" "jstok_push p2' ty ?st ?tok = (r3, p3')"
      and ag3: "jstok_agree p3 t2 p3' t2'"
    by blast
  from ag3 have pos3: "p_pos p3 = p_pos p3'" by (rule jstok_agree_fields)
  show ?thesis
    unfolding jstok_start_container_def acc prod.case pos1 tok none push
    using ag1 ag2 ag3 by (simp add: pos3 jstok_agree_updates)
qed

lemma jstok_end_container_agree:
  assumes "jstok_agree p toks p' toks'"
  shows "jstok_agree_result (jstok_end_container p toks ty closer)
           (jstok_end_container p' toks' ty closer)"
proof -
  from assms have top: "jstok_top p = jstok_top p'" and pos: "p_pos p = p_pos p'"
    by (rule jstok_agree_fields)+
  show ?thesis
  proof (cases "jstok_top p'")
    case None
    with assms show ?thesis
      by (simp add: jstok_end_container_def top pos jstok_agree_updates)
  next
    case (Some fr)
    from jstok_agree_top [OF assms Some] have fr: "p_stack p fr = p_stack p' fr" .
    let ?close = "\<lambda>t. case t of
        Some ts \<Rightarrow>
          if fr_tok (p_stack p' fr) \<ge> 0
          then Some (ts[nat (fr_tok (p_stack p' fr)) :=
                 jstok_close_token (ts ! nat (fr_tok (p_stack p' fr))) ty (p_pos p')])
          else t
      | None \<Rightarrow> t"
    have closed: "jstok_tokens_agree (p_toknext p) (?close toks) (?close toks')"
      using jstok_agree_tokens(1) [OF assms]
    proof (cases rule: jstok_tokens_agree_cases)
      case 1
      then show ?thesis by (simp add: jstok_tokens_agree_def)
    next
      case (2 ts ts')
      from assms 2 have ag: "jstok_tokens_agree (p_toknext p) (Some ts) (Some ts')"
        by (auto simp: jstok_agree_def)
      from jstok_tokens_agree_update [OF ag, of "nat (fr_tok (p_stack p' fr))"
          "\<lambda>t. jstok_close_token t ty (p_pos p')"] 2 ag
      show ?thesis by simp
    qed
    have popped: "jstok_agree (jstok_pop p) (?close toks) (jstok_pop p') (?close toks')"
      using jstok_agree_updates(4) [OF assms] jstok_pop_toknext closed
      by (rule jstok_agree_retoken)
    from popped have ppos: "p_pos (jstok_pop p) = p_pos (jstok_pop p')"
      by (rule jstok_agree_fields)
    from assms Some popped show ?thesis
      unfolding jstok_end_container_def top pos Let_def Some option.case fr
      by (simp add: ppos jstok_agree_updates)
  qed
qed

lemma jstok_parse_string_token_agree:
  assumes "jstok_agree p toks p' toks'"
  shows "jstok_agree_result (jstok_parse_string_token p json json_len toks max_tokens)
           (jstok_parse_string_token p' json json_len toks' max_tokens)"
proof -
  from assms have pos: "p_pos p = p_pos p'" by (rule jstok_agree_fields)
  obtain r at where loop: "jstok_string_loop json json_len (p_pos p' + 1) = (r, at)"
    by (cases "jstok_string_loop json json_len (p_pos p' + 1)")
  have ag_at: "jstok_agree (p\<lparr>p_pos := at\<rparr>) toks (p'\<lparr>p_pos := at\<rparr>) toks'"
    using assms by (rule jstok_agree_updates)
  from jstok_new_token_agree [OF ag_at, of max_tokens JSTOK_STRING "p_pos p' + 1" at]
  obtain i p2 t2 p2' t2'
    where tok: "jstok_new_token (p\<lparr>p_pos := at\<rparr>) toks max_tokens JSTOK_STRING (p_pos p' + 1) at
                  = (i, p2, t2)"
      "jstok_new_token (p'\<lparr>p_pos := at\<rparr>) toks' max_tokens JSTOK_STRING (p_pos p' + 1) at
         = (i, p2', t2')"
      and ag2: "jstok_agree p2 t2 p2' t2'"
    by (rule jstok_agree_resultE)
  from ag2 have pos2: "p_pos p2 = p_pos p2'" by (rule jstok_agree_fields)
  show ?thesis
    unfolding jstok_parse_string_token_def pos Let_def loop prod.case tok
    using assms ag_at ag2 by (simp add: pos2 jstok_agree_updates)
qed

lemma jstok_parse_literal_agree:
  assumes "jstok_agree p toks p' toks'"
  shows "\<exists>r q q'. jstok_parse_literal p json json_len lit = (r, q)
           \<and> jstok_parse_literal p' json json_len lit = (r, q')
           \<and> jstok_agree q toks q' toks'"
proof -
  from assms have pos: "p_pos p = p_pos p'" by (rule jstok_agree_fields)
  obtain r i where loop: "jstok_literal_loop json json_len (p_pos p') lit 0 = (r, i)"
    by (cases "jstok_literal_loop json json_len (p_pos p') lit 0")
  show ?thesis
    unfolding jstok_parse_literal_def pos loop prod.case
    using assms by (simp add: jstok_agree_updates)
qed

lemma jstok_primitive_literal_agree:
  assumes "jstok_agree p toks p' toks'"
  shows "jstok_agree_result (jstok_primitive_literal p json json_len toks max_tokens lit)
           (jstok_primitive_literal p' json json_len toks' max_tokens lit)"
proof -
  from assms have pos: "p_pos p = p_pos p'" by (rule jstok_agree_fields)
  from jstok_parse_literal_agree [OF assms, of json json_len lit] obtain n p1 p1'
    where lit: "jstok_parse_literal p json json_len lit = (n, p1)"
      "jstok_parse_literal p' json json_len lit = (n, p1')"
      and ag1: "jstok_agree p1 toks p1' toks'"
    by blast
  from ag1 have pos1: "p_pos p1 = p_pos p1'" by (rule jstok_agree_fields)
  have ag_n: "jstok_agree (p1\<lparr>p_pos := p_pos p1' + n\<rparr>) toks (p1'\<lparr>p_pos := p_pos p1' + n\<rparr>) toks'"
    using ag1 by (rule jstok_agree_updates)
  show ?thesis
    unfolding jstok_primitive_literal_def pos Let_def lit prod.case pos1
    using ag1 jstok_new_token_agree [OF ag_n] by simp
qed

lemma jstok_parse_number_span_agree:
  assumes "jstok_agree p toks p' toks'"
  shows "\<exists>r q q' e. jstok_parse_number_span strict p json json_len out_end = (r, q, e)
           \<and> jstok_parse_number_span strict p' json json_len out_end = (r, q', e)
           \<and> jstok_agree q toks q' toks'"
proof -
  from assms have pos: "p_pos p = p_pos p'" by (rule jstok_agree_fields)
  obtain r i where scan: "jstok_number_scan strict json json_len (p_pos p') = (r, i)"
    by (cases "jstok_number_scan strict json json_len (p_pos p')")
  show ?thesis
    unfolding jstok_parse_number_span_def pos scan prod.case
    using assms by (simp add: jstok_agree_updates)
qed

lemma jstok_parse_primitive_token_agree:
  assumes "jstok_agree p toks p' toks'"
  shows "jstok_agree_result (jstok_parse_primitive_token strict p json json_len toks max_tokens)
           (jstok_parse_primitive_token strict p' json json_len toks' max_tokens)"
proof -
  from assms have pos: "p_pos p = p_pos p'" by (rule jstok_agree_fields)
  note lit = jstok_primitive_literal_agree [OF assms, of json json_len max_tokens]
  from jstok_parse_number_span_agree [OF assms, of strict json json_len 0] obtain n p1 p1' e
    where num: "jstok_parse_number_span strict p json json_len 0 = (n, p1, e)"
      "jstok_parse_number_span strict p' json json_len 0 = (n, p1', e)"
      and ag1: "jstok_agree p1 toks p1' toks'"
    by blast
  have ag_e: "jstok_agree (p1\<lparr>p_pos := e\<rparr>) toks (p1'\<lparr>p_pos := e\<rparr>) toks'"
    using ag1 by (rule jstok_agree_updates)
  show ?thesis
    unfolding jstok_parse_primitive_token_def pos Let_def num prod.case
    using assms ag1 lit jstok_new_token_agree [OF ag_e]
    by (simp add: jstok_agree_updates)
qed

lemma jstok_rollback_value_agree:
  assumes "jstok_agree p0 toks0 p0' toks0'" and "jstok_agree p toks p' toks'"
    and "p_depth p = p_depth p0"
  shows "\<exists>q t q' t'. jstok_rollback_value p0 p toks = (q, t)
           \<and> jstok_rollback_value p0' p' toks' = (q', t')
           \<and> jstok_agree q t q' t'"
proof -
  from assms(1) have top: "jstok_top p0 = jstok_top p0'"
    and rd: "p_root_done p0 = p_root_done p0'"
    by (rule jstok_agree_fields)+
  show ?thesis
  proof (cases "jstok_top p0'")
    case None
    with assms(2) show ?thesis
      by (simp add: jstok_rollback_value_def top rd jstok_agree_updates)
  next
    case (Some fr)
    from jstok_agree_top [OF assms(1) Some] have fr0: "p_stack p0 fr = p_stack p0' fr" .
    from assms(2) have dep: "p_depth p = p_depth p'" by (rule jstok_agree_fields)
    from Some top assms(3) dep have "jstok_top p' = Some fr"
      by (auto simp: jstok_top_def split: if_splits)
    from jstok_agree_top [OF assms(2) this] have fr: "p_stack p fr = p_stack p' fr" .
    let ?dec = "\<lambda>t. case t of
        Some ts \<Rightarrow>
          if fr_tok (p_stack p' fr) \<ge> 0
          then Some (ts[nat (fr_tok (p_stack p' fr)) :=
                 (ts ! nat (fr_tok (p_stack p' fr)))
                   \<lparr>tk_size := tk_size (ts ! nat (fr_tok (p_stack p' fr))) - 1\<rparr>])
          else t
      | None \<Rightarrow> t"
    have dec: "jstok_tokens_agree (p_toknext p) (?dec toks) (?dec toks')"
      using jstok_agree_tokens(1) [OF assms(2)]
    proof (cases rule: jstok_tokens_agree_cases)
      case 1
      then show ?thesis by (simp add: jstok_tokens_agree_def)
    next
      case (2 ts ts')
      from assms(2) 2 have ag: "jstok_tokens_agree (p_toknext p) (Some ts) (Some ts')"
        by (auto simp: jstok_agree_def)
      from jstok_tokens_agree_update [OF ag, of "nat (fr_tok (p_stack p' fr))"
          "\<lambda>t. t\<lparr>tk_size := tk_size t - 1\<rparr>"] 2 ag
      show ?thesis by simp
    qed
    have "jstok_agree (frame_set_st p fr st) (?dec toks) (frame_set_st p' fr st) (?dec toks')"
      for st
      using jstok_agree_updates(5) [OF assms(2), of fr st] frame_set_st_fields(2) dec
      by (rule jstok_agree_retoken)
    then show ?thesis
      unfolding jstok_rollback_value_def top Some option.case fr fr0 by simp
  qed
qed

lemma jstok_new_token_depth:
  "jstok_new_token p toks max_tokens ty s e = (r, p', toks') \<Longrightarrow> p_depth p' = p_depth p"
  by (auto simp: jstok_new_token_def split: option.splits if_splits)

lemma jstok_accept_value_depth:
  "jstok_accept_value strict p toks = (r, p', toks') \<Longrightarrow> p_depth p' = p_depth p"
  by (auto simp: jstok_accept_value_def split: option.splits if_splits)

lemma jstok_parse_string_token_depth:
  "jstok_parse_string_token p json json_len toks max_tokens = (r, p', toks') \<Longrightarrow>
   p_depth p' = p_depth p"
  by (auto simp: jstok_parse_string_token_def Let_def
      split: if_splits prod.splits dest!: jstok_new_token_depth)

lemma jstok_primitive_literal_depth:
  "jstok_primitive_literal p json json_len toks max_tokens lit = (r, p', toks') \<Longrightarrow>
   p_depth p' = p_depth p"
  by (auto simp: jstok_primitive_literal_def jstok_parse_literal_def Let_def
      split: if_splits prod.splits dest!: jstok_new_token_depth)

lemma jstok_parse_primitive_token_depth:
  "jstok_parse_primitive_token strict p json json_len toks max_tokens = (r, p', toks') \<Longrightarrow>
   p_depth p' = p_depth p"
  by (auto simp: jstok_parse_primitive_token_def jstok_parse_number_span_def Let_def
      split: if_splits prod.splits
      dest!: jstok_primitive_literal_depth jstok_new_token_depth)

lemma jstok_parse_key_agree:
  assumes "jstok_agree p toks p' toks'" and "jstok_top p' = Some fr"
  shows "jstok_agree_result (jstok_parse_key p json json_len toks max_tokens fr)
           (jstok_parse_key p' json json_len toks' max_tokens fr)"
proof -
  from jstok_parse_string_token_agree [OF assms(1), of json json_len max_tokens]
  obtain r p1 t1 p1' t1'
    where str: "jstok_parse_string_token p json json_len toks max_tokens = (r, p1, t1)"
      "jstok_parse_string_token p' json json_len toks' max_tokens = (r, p1', t1')"
      and ag1: "jstok_agree p1 t1 p1' t1'"
    by (rule jstok_agree_resultE)
  from jstok_accept_key_agree [OF ag1] obtain r2 p2 p2'
    where key: "jstok_accept_key p1 = (r2, p2)" "jstok_accept_key p1' = (r2, p2')"
      and ag2: "jstok_agree p2 t1 p2' t1'"
    by blast
  from jstok_agree_top [OF assms] have fr: "p_stack p fr = p_stack p' fr" .
  show ?thesis
    unfolding jstok_parse_key_def str prod.case key fr
    using ag1 ag2 by (simp add: jstok_agree_updates)
qed

lemma jstok_parse_string_value_agree:
  assumes "jstok_agree p toks p' toks'"
  shows "jstok_agree_result (jstok_parse_string_value strict p json json_len toks max_tokens)
           (jstok_parse_string_value strict p' json json_len toks' max_tokens)"
proof -
  from jstok_accept_value_agree [OF assms, of strict] obtain r p1 t1 p1' t1'
    where acc: "jstok_accept_value strict p toks = (r, p1, t1)"
      "jstok_accept_value strict p' toks' = (r, p1', t1')"
      and ag1: "jstok_agree p1 t1 p1' t1'"
    by (rule jstok_agree_resultE)
  from jstok_parse_string_token_agree [OF ag1, of json json_len max_tokens]
  obtain r2 p2 t2 p2' t2'
    where str: "jstok_parse_string_token p1 json json_len t1 max_tokens = (r2, p2, t2)"
      "jstok_parse_string_token p1' json json_len t1' max_tokens = (r2, p2', t2')"
      and ag2: "jstok_agree p2 t2 p2' t2'"
    by (rule jstok_agree_resultE)
  from acc(1) str(1) have "p_depth p2 = p_depth p"
    by (simp add: jstok_accept_value_depth jstok_parse_string_token_depth)
  from jstok_rollback_value_agree [OF assms ag2 this] obtain p3 t3 p3' t3'
    where rb: "jstok_rollback_value p p2 t2 = (p3, t3)"
      "jstok_rollback_value p' p2' t2' = (p3', t3')"
      and ag3: "jstok_agree p3 t3 p3' t3'"
    by blast
  show ?thesis
    unfolding jstok_parse_string_value_def acc prod.case str rb
    using ag1 ag2 ag3 by simp
qed

lemma jstok_parse_primitive_value_agree:
  assumes "jstok_agree p toks p' toks'"
  shows "jstok_agree_result
           (jstok_parse_primitive_value strict p json json_len toks max_tokens)
           (jstok_parse_primitive_value strict p' json json_len toks' max_tokens)"
proof -
  from jstok_accept_value_agree [OF assms, of strict] obtain r p1 t1 p1' t1'
    where acc: "jstok_accept_value strict p toks = (r, p1, t1)"
      "jstok_accept_value strict p' toks' = (r, p1', t1')"
      and ag1: "jstok_agree p1 t1 p1' t1'"
    by (rule jstok_agree_resultE)
  from jstok_parse_primitive_token_agree [OF ag1, of strict json json_len max_tokens]
  obtain r2 p2 t2 p2' t2'
    where prim: "jstok_parse_primitive_token strict p1 json json_len t1 max_tokens
                   = (r2, p2, t2)"
      "jstok_parse_primitive_token strict p1' json json_len t1' max_tokens = (r2, p2', t2')"
      and ag2: "jstok_agree p2 t2 p2' t2'"
    by (rule jstok_agree_resultE)
  from acc(1) prim(1) have "p_depth p2 = p_depth p"
    by (simp add: jstok_accept_value_depth jstok_parse_primitive_token_depth)
  from jstok_rollback_value_agree [OF assms ag2 this] obtain p3 t3 p3' t3'
    where rb: "jstok_rollback_value p p2 t2 = (p3, t3)"
      "jstok_rollback_value p' p2' t2' = (p3', t3')"
      and ag3: "jstok_agree p3 t3 p3' t3'"
    by blast
  show ?thesis
    unfolding jstok_parse_primitive_value_def acc prod.case prim rb
    using ag1 ag2 ag3 by simp
qed

lemma jstok_parse_colon_agree:
  assumes "jstok_agree p toks p' toks'"
  shows "jstok_agree_result (jstok_parse_colon p toks) (jstok_parse_colon p' toks')"
proof -
  from assms have top: "jstok_top p = jstok_top p'" and pos: "p_pos p = p_pos p'"
    by (rule jstok_agree_fields)+
  show ?thesis
  proof (cases "jstok_top p'")
    case None
    with assms show ?thesis
      by (simp add: jstok_parse_colon_def top pos jstok_agree_updates)
  next
    case (Some fr)
    from jstok_agree_top [OF assms Some] have fr: "p_stack p fr = p_stack p' fr" .
    from assms Some show ?thesis
      by (simp add: jstok_parse_colon_def top pos fr jstok_agree_updates)
  qed
qed

lemma jstok_parse_comma_agree:
  assumes "jstok_agree p toks p' toks'"
  shows "jstok_agree_result (jstok_parse_comma p toks) (jstok_parse_comma p' toks')"
proof -
  from assms have top: "jstok_top p = jstok_top p'" and pos: "p_pos p = p_pos p'"
    by (rule jstok_agree_fields)+
  show ?thesis
  proof (cases "jstok_top p'")
    case None
    with assms show ?thesis
      by (simp add: jstok_parse_comma_def top pos jstok_agree_updates)
  next
    case (Some fr)
    from jstok_agree_top [OF assms Some] have fr: "p_stack p fr = p_stack p' fr" .
    from assms Some show ?thesis
      by (simp add: jstok_parse_comma_def top pos fr jstok_agree_updates)
  qed
qed

lemma jstok_return_if_negative_agree:
  assumes "jstok_agree_result a b"
  shows "jstok_agree_result (jstok_return_if_negative a) (jstok_return_if_negative b)"
  using assms by (rule jstok_agree_resultE) (simp add: jstok_return_if_negative_def)

lemma jstok_parse_step_agree:
  assumes "jstok_agree p toks p' toks'"
  shows "jstok_agree_result (jstok_parse_step strict json json_len max_tokens p toks)
           (jstok_parse_step strict json json_len max_tokens p' toks')"
proof -
  from assms have pos: "p_pos p = p_pos p'" and top: "jstok_top p = jstok_top p'"
    by (rule jstok_agree_fields)+
  note sub = jstok_return_if_negative_agree [OF jstok_start_container_agree [OF assms]]
    jstok_return_if_negative_agree [OF jstok_end_container_agree [OF assms]]
    jstok_parse_string_value_agree [OF assms]
    jstok_parse_primitive_value_agree [OF assms]
    jstok_parse_colon_agree [OF assms] jstok_parse_comma_agree [OF assms]
  have ws: "jstok_agree (p\<lparr>p_pos := p_pos p' + 1\<rparr>) toks (p'\<lparr>p_pos := p_pos p' + 1\<rparr>) toks'"
    using assms by (rule jstok_agree_updates)
  show ?thesis
    unfolding jstok_parse_step_def pos top Let_def
    by (auto simp: ws sub jstok_parse_key_agree [OF assms] jstok_agree_top [OF assms]
        split: option.split)
qed

lemma jstok_parse_finish_agree:
  assumes "jstok_agree p toks p' toks'"
  shows "jstok_agree_result (jstok_parse_finish strict p toks)
           (jstok_parse_finish strict p' toks')"
  using assms
  by (simp add: jstok_parse_finish_def jstok_agree_fields [OF assms] jstok_agree_updates)

lemma jstok_parse_loop_agree:
  assumes "jstok_agree p toks p' toks'"
  shows "jstok_agree_result (jstok_parse_loop strict json json_len max_tokens p toks)
           (jstok_parse_loop strict json json_len max_tokens p' toks')"
  using assms
proof (induction "nat (json_len - p_pos p)" arbitrary: p toks p' toks' rule: less_induct)
  case less
  from less.prems have pos: "p_pos p = p_pos p'" by (rule jstok_agree_fields)
  show ?case
  proof (cases "p_pos p < json_len")
    case False
    with pos jstok_parse_finish_agree [OF less.prems] show ?thesis
      by (simp add: jstok_parse_loop_exit)
  next
    case True
    from jstok_parse_step_agree [OF less.prems, of strict json json_len max_tokens]
    obtain r q t q' t'
      where step: "jstok_parse_step strict json json_len max_tokens p toks = (r, q, t)"
        "jstok_parse_step strict json json_len max_tokens p' toks' = (r, q', t')"
        and ag: "jstok_agree q t q' t'"
      by (rule jstok_agree_resultE)
    show ?thesis
    proof (cases r)
      case (Some x)
      with True pos step ag show ?thesis
        by (simp add: jstok_parse_loop_run)
    next
      case None
      from step(1) None have adv: "p_pos p < p_pos q"
        by (auto dest: jstok_parse_step_advances)
      with True have "nat (json_len - p_pos q) < nat (json_len - p_pos p)" by simp
      from less.hyps [OF this ag] None True pos step
      show ?thesis
        by (simp add: jstok_parse_loop_run)
    qed
  qed
qed

lemma jstok_parse_step_negative:
  "jstok_parse_step strict json json_len max_tokens p toks = (Some x, p', toks') \<Longrightarrow> x < 0"
  unfolding jstok_parse_step_def Let_def jstok_return_if_negative_def
  by (auto simp: jstok_parse_colon_def jstok_parse_comma_def jstok_parse_key_def
      jstok_parse_string_value_def jstok_parse_primitive_value_def
      split: if_splits prod.splits option.splits)

lemma jstok_parse_loop_count:
  assumes "jstok_parse_loop strict json json_len max_tokens p toks = (r, p', toks')"
    and "0 \<le> r"
  shows "r = p_toknext p'"
  using assms(1)
proof (induction "nat (json_len - p_pos p)" arbitrary: p toks rule: less_induct)
  case less
  show ?case
  proof (cases "p_pos p < json_len")
    case False
    with less.prems assms(2) show ?thesis
      by (auto simp: jstok_parse_loop_exit jstok_parse_finish_def split: if_splits)
  next
    case True
    obtain ret p1 t1
      where step: "jstok_parse_step strict json json_len max_tokens p toks = (ret, p1, t1)"
      by (cases "jstok_parse_step strict json json_len max_tokens p toks")
    show ?thesis
    proof (cases ret)
      case (Some x)
      with step have "x < 0" by (auto dest: jstok_parse_step_negative)
      with less.prems True step Some assms(2) show ?thesis
        by (simp add: jstok_parse_loop_run)
    next
      case None
      with step True have "nat (json_len - p_pos p1) < nat (json_len - p_pos p)"
        by (auto dest: jstok_parse_step_advances)
      from less.hyps [OF this] less.prems True step None show ?thesis
        by (simp add: jstok_parse_loop_run)
    qed
  qed
qed

lemma jstok_tokens_agree_take:
  assumes "jstok_tokens_agree n t t'"
  shows "map_option (take (nat n)) t = map_option (take (nat n)) t'"
  using assms
proof (cases rule: jstok_tokens_agree_cases)
  case 1
  then show ?thesis by simp
next
  case (2 ts ts')
  with assms have eq: "\<And>i. int i < n \<Longrightarrow> i < length ts \<Longrightarrow> ts ! i = ts' ! i"
    by (simp add: jstok_tokens_agree_def)
  have "take (nat n) ts = take (nat n) ts'"
    by (rule nth_equalityI) (use 2 eq in auto)
  with 2 show ?thesis by simp
qed

text \<open>
  Claim C1 says that for every valid JSON document a parse of a prefix that returns
  \<open>JSTOK_ERROR_PART\<close> can be resumed on the full buffer and then succeeds, with the
  output of a one-shot parse. The two bytes \<open>12\<close> are a valid JSON document, yet a
  number is never committed at the end of the buffer ("Resume safety" in
  \<open>jstok_parse_number_span\<close>): the prefix \<open>1\<close> gives \<open>JSTOK_ERROR_PART\<close>, and the resumed
  call on both bytes gives \<open>JSTOK_ERROR_PART\<close> again, not a success.
\<close>

theorem jstok_parse_resume_top_level_number:
  "jstok_parse True (Some (jstok_init stale_parser)) (Some ''12'') 1 None 0 =
     (JSTOK_ERROR_PART,
      Some (stale_parser\<lparr>p_pos := 0, p_toknext := 0, p_depth := 0, p_root_done := 0,
              p_error_pos := 1, p_error_code := JSTOK_ERROR_PART\<rparr>), None)
   \<and> jstok_parse True
       (Some (stale_parser\<lparr>p_pos := 0, p_toknext := 0, p_depth := 0, p_root_done := 0,
              p_error_pos := 1, p_error_code := JSTOK_ERROR_PART\<rparr>)) (Some ''12'') 2 None 0 =
     (JSTOK_ERROR_PART,
      Some (stale_parser\<lparr>p_pos := 0, p_toknext := 0, p_depth := 0, p_root_done := 0,
              p_error_pos := 2, p_error_code := JSTOK_ERROR_PART\<rparr>), None)"
  by (simp add: jstok_eval_defs jstok_skip_digits.simps Let_def)

text \<open>
  Claim C1 as amended: the documents are those that a one-shot parse accepts. Let a
  parse of the first \<open>k\<close> bytes of a buffer, on a freshly initialised parser, return
  \<open>JSTOK_ERROR_PART\<close>, and let a one-shot parse of the first \<open>n \<ge> k\<close> bytes of the same
  buffer return a count \<open>r \<ge> 0\<close>; the one-shot parse runs on a freshly initialised parser
  of its own and on a token array of its own, of the same length as the first (or both
  run in count-only mode). Then calling \<open>jstok_parse\<close> again on the parser and the token
  array that the first call left, with length \<open>n\<close>, returns the same \<open>r\<close>, and the first
  \<open>r\<close> tokens are those of the one-shot parse, each with the same type, start, end and
  size. The two runs also end with the same position, depth, root flag and error fields.
\<close>

theorem jstok_parse_resume:
  assumes "k \<le> n"
    and "jstok_parse strict (Some (jstok_init p)) (Some json) k tokens max_tokens
           = (JSTOK_ERROR_PART, Some pA, tA)"
    and "jstok_parse strict (Some (jstok_init p1)) (Some json) n tokens1 max_tokens
           = (r, Some pC, tC)"
    and "0 \<le> r"
    and "map_option length tokens1 = map_option length tokens"
  shows "\<exists>pR tR. jstok_parse strict (Some pA) (Some json) n tA max_tokens = (r, Some pR, tR)
           \<and> p_toknext pR = r \<and> p_toknext pC = r
           \<and> map_option (take (nat r)) tR = map_option (take (nat r)) tC
           \<and> p_pos pR = p_pos pC \<and> p_depth pR = p_depth pC
           \<and> p_root_done pR = p_root_done pC
           \<and> p_error_code pR = p_error_code pC \<and> p_error_pos pR = p_error_pos pC"
proof -
  let ?p = "(jstok_init p)\<lparr>p_error_pos := - 1, p_error_code := 0\<rparr>"
  let ?p1 = "(jstok_init p1)\<lparr>p_error_pos := - 1, p_error_code := 0\<rparr>"
  from assms(2) have k: "\<not> k < 0"
    by (auto simp: jstok_parse_def split: if_splits)
  with assms(1) have n: "\<not> n < 0" by simp
  from assms(2) k
  have A: "jstok_parse_loop strict json k max_tokens ?p tokens = (JSTOK_ERROR_PART, pA, tA)"
    by (auto simp: jstok_parse_def split: prod.splits)
  from assms(3) n
  have C1: "jstok_parse_loop strict json n max_tokens ?p1 tokens1 = (r, pC, tC)"
    by (auto simp: jstok_parse_def split: prod.splits)
  from assms(5) have "jstok_tokens_agree 0 tokens tokens1"
    by (cases tokens; cases tokens1) (simp_all add: jstok_tokens_agree_def)
  then have "jstok_agree ?p tokens ?p1 tokens1"
    by (simp add: jstok_agree_def jstok_init_def)
  from jstok_parse_loop_agree [OF this, of strict json n max_tokens] C1
  obtain pR tR
    where C: "jstok_parse_loop strict json n max_tokens ?p tokens = (r, pR, tR)"
      and ag: "jstok_agree pR tR pC tC"
    by (cases "jstok_parse_loop strict json n max_tokens ?p tokens") auto
  have tn: "0 \<le> p_toknext ?p" by (simp add: jstok_init_def)
  from jstok_parse_loop_resume [OF assms(1) A C assms(4) tn]
  have "jstok_parse_loop strict json n max_tokens
          (pA\<lparr>p_error_pos := - 1, p_error_code := 0\<rparr>) tA = (r, pR, tR)"
    by (simp add: jstok_init_def)
  with n have R: "jstok_parse strict (Some pA) (Some json) n tA max_tokens = (r, Some pR, tR)"
    by (simp add: jstok_parse_def)
  from jstok_parse_loop_count [OF C assms(4)] have cnt: "p_toknext pR = r" by simp
  from jstok_agree_tokens(1) [OF ag] cnt
  have "map_option (take (nat r)) tR = map_option (take (nat r)) tC"
    by (auto dest: jstok_tokens_agree_take)
  with R cnt ag show ?thesis
    by (auto simp: jstok_agree_def)
qed

theorem jstok_parse_resume_witness:
  "\<exists>pR tR.
     jstok_parse True
       (Some (stale_parser\<lparr>p_pos := 3, p_toknext := 2, p_depth := 1, p_root_done := 1,
                p_error_pos := 5, p_error_code := JSTOK_ERROR_PART,
                p_stack := (p_stack stale_parser)(0 :=
                  \<lparr>fr_type = JSTOK_ARRAY, fr_st = JSTOK_ST_ARR_VALUE, fr_tok = 0\<rparr>)\<rparr>))
       (Some [CHR ''['', CHR ''1'', CHR '','', CHR 0x22, CHR ''a'', CHR ''b'', CHR 0x22,
              CHR '']''])
       8
       (Some [\<lparr>tk_type = JSTOK_ARRAY, tk_start = 0, tk_end = - 1, tk_size = 1\<rparr>,
              \<lparr>tk_type = JSTOK_PRIMITIVE, tk_start = 1, tk_end = 2, tk_size = 0\<rparr>,
              stale_token])
       3 = (3, Some pR, tR)
     \<and> p_toknext pR = 3
     \<and> map_option (take 3) tR =
         Some [\<lparr>tk_type = JSTOK_ARRAY, tk_start = 0, tk_end = 8, tk_size = 2\<rparr>,
               \<lparr>tk_type = JSTOK_PRIMITIVE, tk_start = 1, tk_end = 2, tk_size = 0\<rparr>,
               \<lparr>tk_type = JSTOK_STRING, tk_start = 4, tk_end = 6, tk_size = 0\<rparr>]
     \<and> p_pos pR = 8 \<and> p_depth pR = 0 \<and> p_root_done pR = 1
     \<and> p_error_code pR = 0 \<and> p_error_pos pR = - 1"
proof -
  let ?json = "[CHR ''['', CHR ''1'', CHR '','', CHR 0x22, CHR ''a'', CHR ''b'', CHR 0x22,
                CHR '']'']"
  have A: "jstok_parse True (Some (jstok_init stale_parser)) (Some ?json) 5
             (Some [stale_token, stale_token, stale_token]) 3 =
     (JSTOK_ERROR_PART,
      Some (stale_parser\<lparr>p_pos := 3, p_toknext := 2, p_depth := 1, p_root_done := 1,
              p_error_pos := 5, p_error_code := JSTOK_ERROR_PART,
              p_stack := (p_stack stale_parser)(0 :=
                \<lparr>fr_type = JSTOK_ARRAY, fr_st = JSTOK_ST_ARR_VALUE, fr_tok = 0\<rparr>)\<rparr>),
      Some [\<lparr>tk_type = JSTOK_ARRAY, tk_start = 0, tk_end = - 1, tk_size = 1\<rparr>,
            \<lparr>tk_type = JSTOK_PRIMITIVE, tk_start = 1, tk_end = 2, tk_size = 0\<rparr>,
            stale_token])"
    by (simp add: jstok_eval_defs jstok_string_loop.simps jstok_skip_digits.simps Let_def
        numeral_2_eq_2)
  have C: "jstok_parse True (Some (jstok_init open_array_parser)) (Some ?json) 8
             (Some [\<lparr>tk_type = JSTOK_OBJECT, tk_start = 7, tk_end = 9, tk_size = 5\<rparr>,
                    stale_token,
                    \<lparr>tk_type = JSTOK_STRING, tk_start = 0, tk_end = 0, tk_size = 1\<rparr>]) 3 =
     (3,
      Some (open_array_parser\<lparr>p_pos := 8, p_toknext := 3, p_depth := 0, p_root_done := 1,
              p_error_pos := - 1, p_error_code := 0,
              p_stack := (p_stack stale_parser)(0 :=
                \<lparr>fr_type = JSTOK_ARRAY, fr_st = JSTOK_ST_ARR_COMMA_OR_END, fr_tok = 0\<rparr>)\<rparr>),
      Some [\<lparr>tk_type = JSTOK_ARRAY, tk_start = 0, tk_end = 8, tk_size = 2\<rparr>,
            \<lparr>tk_type = JSTOK_PRIMITIVE, tk_start = 1, tk_end = 2, tk_size = 0\<rparr>,
            \<lparr>tk_type = JSTOK_STRING, tk_start = 4, tk_end = 6, tk_size = 0\<rparr>])"
    by (simp add: jstok_eval_defs jstok_string_loop.simps jstok_skip_digits.simps Let_def
        numeral_2_eq_2 open_array_parser_def)
  from jstok_parse_resume [OF _ A C] show ?thesis
    by (simp add: numeral_3_eq_3)
qed

section \<open>The depth limit\<close>












end
